theory Spec2Isabelle
  imports Complex_Main "HOL-Library.Word"
begin

section \<open>Doubles\<close>

text \<open>
  A C++ \<open>double\<close> is an IEEE 754 binary64 number: a finite value, an infinity or a NaN. A
  finite double is given by the real it stands for; the sign of a zero is not kept (it can
  show in a division by zero only, which takes the zero as positive). Every arithmetic
  operation rounds the exact result to the nearest double, ties to even: \<open>rnd\<close> scales the
  real by the power of two that leaves 53 bits before the point (the exponent is at least
  \<open>-1022\<close>, so small results are rounded as subnormals), rounds to an integer with \<open>rne\<close>
  and scales back; \<open>fl\<close> turns a result of magnitude \<open>2 ^ 1024\<close> or more into an infinity.
  Operations are not fused. \<open>bit_length n\<close> is the number of bits of \<open>n\<close>, and \<open>expo x\<close>
  the binary exponent of \<open>x\<close>: \<open>2 ^ expo x \<le> \<bar>x\<bar> < 2 ^ (expo x + 1)\<close>.
\<close>

datatype double = Fin real | PInf | NInf | NaN

fun bit_length :: "nat \<Rightarrow> nat" where
  "bit_length n = (if n = 0 then 0 else Suc (bit_length (n div 2)))"

declare bit_length.simps [simp del]

definition rne :: "real \<Rightarrow> int" where
  "rne y =
     (let f = \<lfloor>y\<rfloor>; r = y - of_int f
      in if r < 1 / 2 then f else if 1 / 2 < r then f + 1 else if even f then f else f + 1)"

definition expo :: "real \<Rightarrow> int" where
  "expo x =
     (if 1 \<le> \<bar>x\<bar> then int (bit_length (nat \<lfloor>\<bar>x\<bar>\<rfloor>)) - 1
      else - int (bit_length (nat (\<lceil>1 / \<bar>x\<bar>\<rceil> - 1))))"

definition rnd :: "real \<Rightarrow> real" where
  "rnd x = (let q = max (expo x) (- 1022) - 52 in of_int (rne (x / 2 powi q)) * 2 powi q)"

definition fl :: "real \<Rightarrow> double" where
  "fl x =
     (let v = rnd x
      in if 2 ^ 1024 \<le> v then PInf else if v \<le> - (2 ^ 1024) then NInf else Fin v)"

fun fneg :: "double \<Rightarrow> double" where
  "fneg (Fin x) = Fin (- x)"
| "fneg PInf = NInf"
| "fneg NInf = PInf"
| "fneg NaN = NaN"

fun fadd :: "double \<Rightarrow> double \<Rightarrow> double" where
  "fadd NaN _ = NaN"
| "fadd _ NaN = NaN"
| "fadd (Fin x) (Fin y) = fl (x + y)"
| "fadd PInf NInf = NaN"
| "fadd NInf PInf = NaN"
| "fadd PInf _ = PInf"
| "fadd _ PInf = PInf"
| "fadd NInf _ = NInf"
| "fadd _ NInf = NInf"

definition fsub :: "double \<Rightarrow> double \<Rightarrow> double" where
  "fsub a b = fadd a (fneg b)"

fun fmul :: "double \<Rightarrow> double \<Rightarrow> double" where
  "fmul NaN _ = NaN"
| "fmul _ NaN = NaN"
| "fmul (Fin x) (Fin y) = fl (x * y)"
| "fmul (Fin x) PInf = (if x = 0 then NaN else if 0 < x then PInf else NInf)"
| "fmul (Fin x) NInf = (if x = 0 then NaN else if 0 < x then NInf else PInf)"
| "fmul PInf (Fin y) = (if y = 0 then NaN else if 0 < y then PInf else NInf)"
| "fmul NInf (Fin y) = (if y = 0 then NaN else if 0 < y then NInf else PInf)"
| "fmul PInf PInf = PInf"
| "fmul PInf NInf = NInf"
| "fmul NInf PInf = NInf"
| "fmul NInf NInf = PInf"

fun fdiv :: "double \<Rightarrow> double \<Rightarrow> double" where
  "fdiv NaN _ = NaN"
| "fdiv _ NaN = NaN"
| "fdiv (Fin x) (Fin y) =
     (if y = 0 then (if x = 0 then NaN else if 0 < x then PInf else NInf) else fl (x / y))"
| "fdiv (Fin x) PInf = Fin 0"
| "fdiv (Fin x) NInf = Fin 0"
| "fdiv PInf (Fin y) = (if 0 \<le> y then PInf else NInf)"
| "fdiv NInf (Fin y) = (if 0 \<le> y then NInf else PInf)"
| "fdiv PInf PInf = NaN"
| "fdiv PInf NInf = NaN"
| "fdiv NInf PInf = NaN"
| "fdiv NInf NInf = NaN"

text \<open>The comparison \<open><\<close>; it is false when an operand is a NaN.\<close>

fun flt :: "double \<Rightarrow> double \<Rightarrow> bool" where
  "flt NaN _ = False"
| "flt _ NaN = False"
| "flt (Fin x) (Fin y) = (x < y)"
| "flt (Fin x) PInf = True"
| "flt (Fin x) NInf = False"
| "flt PInf _ = False"
| "flt NInf (Fin y) = True"
| "flt NInf PInf = True"
| "flt NInf NInf = False"

text \<open>\<open>std::min(a, b)\<close> is \<open>(b < a) ? b : a\<close> and \<open>std::max(a, b)\<close> is \<open>(a < b) ? b : a\<close>.\<close>

definition std_min :: "double \<Rightarrow> double \<Rightarrow> double" where
  "std_min a b = (if flt b a then b else a)"

definition std_max :: "double \<Rightarrow> double \<Rightarrow> double" where
  "std_max a b = (if flt a b then b else a)"

text \<open>
  The conversion of an integer to double rounds. The conversion of a double to \<open>int\<close>
  drops the fraction; it is defined only when the result is a 32-bit signed integer
  (\<open>int_range\<close>), and \<open>None\<close> otherwise.
\<close>

definition double_of_int :: "int \<Rightarrow> double" where
  "double_of_int k = fl (of_int k)"

definition int_range :: "int \<Rightarrow> bool" where
  "int_range k \<longleftrightarrow> - (2 ^ 31) \<le> k \<and> k < 2 ^ 31"

definition int_of_double :: "double \<Rightarrow> int option" where
  "int_of_double d =
     (case d of
        Fin x \<Rightarrow> (let t = (if 0 \<le> x then \<lfloor>x\<rfloor> else \<lceil>x\<rceil>) in if int_range t then Some t else None)
      | _ \<Rightarrow> None)"

section \<open>Histograms of the plotting library\<close>

text \<open>
  The module stores everything in histograms of the external plotting library (TH1D, TH2D).
  Only the operations the module calls are modelled, with the arithmetic of the library in
  doubles. An axis has \<open>fNbins\<close> bins of equal width over \<open>[fXmin, fXmax)\<close> (a constructor
  called with no bin makes one bin); bin 0 is the underflow bin and bin \<open>fNbins + 1\<close> the
  overflow bin. \<open>FindBin\<close> is
  \<open>1 + int (fNbins * (x - fXmin) / (fXmax - fXmin))\<close> between the edges; there the
  quotient is finite and not negative when the edges are finite, and \<open>bin_of\<close> is its
  integer part.
\<close>

record axis =
  fNbins :: nat
  fXmin :: double
  fXmax :: double

definition bin_of :: "double \<Rightarrow> nat" where
  "bin_of d = (case d of Fin v \<Rightarrow> nat \<lfloor>v\<rfloor> | _ \<Rightarrow> 0)"

definition FindBin :: "axis \<Rightarrow> double \<Rightarrow> nat" where
  "FindBin a x =
     (if flt x (fXmin a) then 0
      else if \<not> flt x (fXmax a) then fNbins a + 1
      else 1 + bin_of (fdiv (fmul (double_of_int (int (fNbins a))) (fsub x (fXmin a)))
                         (fsub (fXmax a) (fXmin a))))"

definition GetBinLowEdge :: "axis \<Rightarrow> nat \<Rightarrow> double" where
  "GetBinLowEdge a b =
     (let binwidth = fdiv (fsub (fXmax a) (fXmin a)) (double_of_int (int (fNbins a)))
      in fadd (fXmin a) (fmul (double_of_int (int b - 1)) binwidth))"

definition GetBinCenter :: "axis \<Rightarrow> nat \<Rightarrow> double" where
  "GetBinCenter a b =
     (let binwidth = fdiv (fsub (fXmax a) (fXmin a)) (double_of_int (int (fNbins a)))
      in fadd (fadd (fXmin a) (fmul (double_of_int (int b - 1)) binwidth))
           (fmul (Fin (1 / 2)) binwidth))"

record TH1D =
  h1_axis :: axis
  h1_bins :: "nat \<Rightarrow> double"

record TH2D =
  h2_xaxis :: axis
  h2_yaxis :: axis
  h2_cells :: "nat \<times> nat \<Rightarrow> double"

definition new_TH1D :: "nat \<Rightarrow> double \<Rightarrow> double \<Rightarrow> TH1D" where
  "new_TH1D n lo hi =
     \<lparr>h1_axis = \<lparr>fNbins = max 1 n, fXmin = lo, fXmax = hi\<rparr>, h1_bins = (\<lambda>_. Fin 0)\<rparr>"

definition new_TH2D :: "nat \<Rightarrow> double \<Rightarrow> double \<Rightarrow> nat \<Rightarrow> double \<Rightarrow> double \<Rightarrow> TH2D" where
  "new_TH2D nx xlo xhi ny ylo yhi =
     \<lparr>h2_xaxis = \<lparr>fNbins = max 1 nx, fXmin = xlo, fXmax = xhi\<rparr>,
      h2_yaxis = \<lparr>fNbins = max 1 ny, fXmin = ylo, fXmax = yhi\<rparr>,
      h2_cells = (\<lambda>_. Fin 0)\<rparr>"

text \<open>\<open>Fill\<close> adds the weight to the bin the coordinates fall into (weight 1 by default).\<close>

definition Fill1 :: "TH1D \<Rightarrow> double \<Rightarrow> TH1D" where
  "Fill1 h x =
     (let bin = FindBin (h1_axis h) x
      in h\<lparr>h1_bins := (h1_bins h)(bin := fadd (h1_bins h bin) (Fin 1))\<rparr>)"

definition Fill2w :: "TH2D \<Rightarrow> double \<Rightarrow> double \<Rightarrow> double \<Rightarrow> TH2D" where
  "Fill2w h x y w =
     (let bin = (FindBin (h2_xaxis h) x, FindBin (h2_yaxis h) y)
      in h\<lparr>h2_cells := (h2_cells h)(bin := fadd (h2_cells h bin) w)\<rparr>)"

definition Fill2 :: "TH2D \<Rightarrow> double \<Rightarrow> double \<Rightarrow> TH2D" where
  "Fill2 h x y = Fill2w h x y (Fin 1)"

definition GetBinContent2 :: "TH2D \<Rightarrow> nat \<Rightarrow> nat \<Rightarrow> double" where
  "GetBinContent2 h binx biny = h2_cells h (binx, biny)"

definition SetBinContent2 :: "TH2D \<Rightarrow> nat \<Rightarrow> nat \<Rightarrow> double \<Rightarrow> TH2D" where
  "SetBinContent2 h binx biny v = h\<lparr>h2_cells := (h2_cells h)((binx, biny) := v)\<rparr>"

text \<open>
  \<open>Add\<close> adds the other histogram, scaled by the factor 1, cell by cell, the flow bins
  included.
\<close>

definition Add2 :: "TH2D \<Rightarrow> TH2D \<Rightarrow> TH2D" where
  "Add2 h g = h\<lparr>h2_cells := (\<lambda>b. fadd (h2_cells h b) (fmul (Fin 1) (h2_cells g b)))\<rparr>"

section \<open>Module state\<close>

text \<open>
  The data members of \<open>SSPDiagnosticAna\<close>. A \<open>std::map\<close> from channel to histogram
  pointer is a partial map from the channel to the histogram itself. \<open>waveformFFTs\<close> is
  left out: it is written by the FFT loop of \<open>endRun\<close> only and read nowhere else.
\<close>

record state =
  averageWaveforms :: "int \<rightharpoonup> TH2D"
  fPulseAmplitude :: TH1D
  PulseAmplitudePerChannel :: "int \<rightharpoonup> TH1D"
  IntegratedChargePerChannel :: "int \<rightharpoonup> TH1D"
  PulseAmplitudeVsIntegratedChargePerChannel :: "int \<rightharpoonup> TH2D"
  PulseAmpVsRun :: "int \<rightharpoonup> TH2D"
  firstTime :: "64 word"
  lastTime :: "64 word"
  triggerCount :: "int \<rightharpoonup> int"

text \<open>The state after construction and \<open>beginJob\<close>: empty maps, \<open>firstTime = 1 << 63\<close>.\<close>

definition beginJob :: state where
  "beginJob =
     \<lparr>averageWaveforms = Map.empty,
      fPulseAmplitude = new_TH1D 125 (Fin (-50)) (Fin 200),
      PulseAmplitudePerChannel = Map.empty,
      IntegratedChargePerChannel = Map.empty,
      PulseAmplitudeVsIntegratedChargePerChannel = Map.empty,
      PulseAmpVsRun = Map.empty,
      firstTime = push_bit 63 1,
      lastTime = 0,
      triggerCount = Map.empty\<rparr>"

definition beginRun :: "state \<Rightarrow> state" where
  "beginRun st =
     st\<lparr>PulseAmplitudePerChannel := Map.empty,
        IntegratedChargePerChannel := Map.empty,
        PulseAmplitudeVsIntegratedChargePerChannel := Map.empty\<rparr>"

section \<open>Derived quantities\<close>

text \<open>
  The window lengths are \<open>const int\<close> members; in the two formulas each is converted to
  double by the operation with a double operand. The operations are taken from left to
  right: \<open>-prerise/i2_window*1.0 + peakSum/m1_window*1.0\<close> is
  \<open>(((-prerise)/i2_window)*1.0) + ((peakSum/m1_window)*1.0)\<close>, and
  \<open>integratedSum - prerise/i2_window*i1_window*1.0\<close> is
  \<open>integratedSum - (((prerise/i2_window)*i1_window)*1.0)\<close>; each of them rounds.
\<close>

definition m1_window :: int where "m1_window = 10"
definition i1_window :: int where "i1_window = 500"
definition i2_window :: int where "i2_window = 500"

definition PulseAmplitude :: "double \<Rightarrow> double \<Rightarrow> double" where
  "PulseAmplitude prerise peakSum =
     fadd (fmul (fdiv (fneg prerise) (double_of_int i2_window)) (Fin 1))
          (fmul (fdiv peakSum (double_of_int m1_window)) (Fin 1))"

definition IntegratedCharge :: "double \<Rightarrow> double \<Rightarrow> double" where
  "IntegratedCharge integratedSum prerise =
     fsub integratedSum
       (fmul (fmul (fdiv prerise (double_of_int i2_window)) (double_of_int i1_window)) (Fin 1))"

section \<open>Trigger records\<close>

text \<open>
  The header struct \<open>SSPDAQ::EventHeader\<close> and the reformatter \<open>SSPReformatterAlgs\<close> are
  declared outside this file. A header is therefore given by what the module reads from
  it: the \<open>length\<close> field, and the values the five reformatter getters return, or \<open>None\<close>
  when one of them throws \<open>cet::exception\<close>. The three sums are stored in doubles. The
  size of the header in 32-bit words, \<open>sizeof(SSPDAQ::EventHeader)/sizeof(unsigned int)\<close>,
  is the parameter \<open>hw\<close> below.
\<close>

record reformatted =
  OpChannel :: "16 word"
  FirstSample :: "64 word"
  peakSum :: double
  prerise :: double
  integratedSum :: double

record EventHeader =
  length_words :: int
  reform :: "reformatted option"

text \<open>
  A fragment: the trigger count \<open>CheckAndGetNTriggers\<close> returns, the data region as word
  offsets \<open>[0, dataEnd)\<close> from \<open>dataBegin\<close>, and the header seen when a word offset is
  reinterpreted as an \<open>EventHeader\<close> (at any offset: the module does not check that a
  header lies inside the data region).
\<close>

record fragment =
  nTriggers :: "32 word"
  dataEnd :: nat
  header_at :: "nat \<Rightarrow> EventHeader"

text \<open>
  \<open>unsigned int nADC = (daqHeader->length - sizeof(EventHeader)/sizeof(unsigned int)) * 2\<close>:
  the subtraction and the product are unsigned and the result is stored in 32 bits, so the
  value is \<open>2 * (length - hw)\<close> modulo \<open>2 ^ 32\<close>.
\<close>

definition nADC :: "nat \<Rightarrow> int \<Rightarrow> 32 word" where
  "nADC hw len = word_of_int ((len - int hw) * 2)"

text \<open>
  \<open>FirstSample < 1e16\<close> compares an \<open>unsigned long\<close> with a double, so the integer is first
  converted to double: rounded to 53 significant bits, ties to even. The rounded value is
  an integer again, and it is kept as an integer here.
\<close>

definition ulong_to_double :: "64 word \<Rightarrow> nat" where
  "ulong_to_double w =
     (let n = unat w; e = bit_length n - 53; q = n div 2 ^ e; r = n mod 2 ^ e
      in if 2 * r < 2 ^ e \<or> (2 * r = 2 ^ e \<and> even q) then q * 2 ^ e else (q + 1) * 2 ^ e)"

definition problem_timestamp :: "64 word \<Rightarrow> bool" where
  "problem_timestamp fs \<longleftrightarrow> ulong_to_double fs < 10 ^ 16"

text \<open>
  The statements of the \<open>try\<close> block after the five getters: the job-wide histogram and
  the three per-channel histograms, each created on first use, are filled.
\<close>

definition fills :: "state \<Rightarrow> reformatted \<Rightarrow> state" where
  "fills st d =
     (let amp = PulseAmplitude (prerise d) (peakSum d);
          channel = uint (OpChannel d);
          charge = IntegratedCharge (integratedSum d) (prerise d);
          pa = (case PulseAmplitudePerChannel st channel of
                  None \<Rightarrow> new_TH1D 125 (Fin (-20)) (Fin 230) | Some h \<Rightarrow> h);
          ic = (case IntegratedChargePerChannel st channel of
                  None \<Rightarrow> new_TH1D 300 (Fin 0) (Fin 30000) | Some h \<Rightarrow> h);
          pavic = (case PulseAmplitudeVsIntegratedChargePerChannel st channel of
                  None \<Rightarrow> new_TH2D 300 (Fin 0) (Fin 30000) 125 (Fin (-20)) (Fin 230)
                | Some h \<Rightarrow> h)
      in st\<lparr>fPulseAmplitude := Fill1 (fPulseAmplitude st) amp,
            PulseAmplitudePerChannel := (PulseAmplitudePerChannel st)(channel \<mapsto> Fill1 pa amp),
            IntegratedChargePerChannel :=
              (IntegratedChargePerChannel st)(channel \<mapsto> Fill1 ic charge),
            PulseAmplitudeVsIntegratedChargePerChannel :=
              (PulseAmplitudeVsIntegratedChargePerChannel st)(channel \<mapsto> Fill2 pavic charge amp)\<rparr>)"

text \<open>The statements after the \<open>try\<close> block, up to the pointer advance.\<close>

definition bookkeeping :: "state \<Rightarrow> reformatted \<Rightarrow> state" where
  "bookkeeping st d =
     st\<lparr>firstTime := min (firstTime st) (FirstSample d),
        lastTime := max (lastTime st) (FirstSample d),
        triggerCount := (triggerCount st)(uint (OpChannel d) \<mapsto>
           (case triggerCount st (uint (OpChannel d)) of None \<Rightarrow> 0 | Some c \<Rightarrow> c) + 1)\<rparr>"

text \<open>
  One pass through the body of the trigger loop, from the state and the data pointer to
  the state and the data pointer at the next loop test. Both \<open>continue\<close> statements leave
  the body before the last statement, \<open>dataPointer += nADC/2\<close>.
\<close>

definition process_trigger :: "nat \<Rightarrow> fragment \<Rightarrow> state \<Rightarrow> nat \<Rightarrow> state \<times> nat" where
  "process_trigger hw frag st dataPointer =
     (let daqHeader = header_at frag dataPointer;
          dataPointer1 = dataPointer + hw;
          n = nADC hw (length_words daqHeader)
      in case reform daqHeader of
           None \<Rightarrow> (st, dataPointer1)
         | Some d \<Rightarrow>
             (let st1 = fills st d
              in if problem_timestamp (FirstSample d) then (st1, dataPointer1)
                 else (bookkeeping st1 d, dataPointer1 + unat (n div 2))))"

text \<open>
  The trigger loop of one fragment. \<open>loads\<close> records the offsets at which a header was
  loaded, in order; it has no counterpart in the source and serves to state what the loop
  read. The result is the state, the final data pointer and the loads; \<open>None\<close> stands for
  a loop that does not end.
\<close>

partial_function (option) walk ::
  "nat \<Rightarrow> fragment \<Rightarrow> state \<Rightarrow> 32 word \<Rightarrow> nat \<Rightarrow> nat list \<Rightarrow> (state \<times> nat \<times> nat list) option"
where
  "walk hw frag st triggersProcessed dataPointer loads =
     (if (nTriggers frag = 0 \<or> triggersProcessed < nTriggers frag) \<and> dataPointer < dataEnd frag
      then (let r = process_trigger hw frag st dataPointer
            in walk hw frag (fst r) (triggersProcessed + 1) (snd r) (loads @ [dataPointer]))
      else Some (st, dataPointer, loads))"

text \<open>The loop over the fragments of an event.\<close>

fun walk_fragments :: "nat \<Rightarrow> fragment list \<Rightarrow> state \<Rightarrow> state option" where
  "walk_fragments hw [] st = Some st"
| "walk_fragments hw (frag # frags) st =
     (case walk hw frag st 0 0 [] of
        None \<Rightarrow> None
      | Some r \<Rightarrow> walk_fragments hw frags (fst r))"

text \<open>
  A data region that is tiled by records from offset \<open>p\<close> on: each record can be
  reformatted, has a timestamp above the threshold and declares a length of at least the
  header (and below \<open>header + 2 ^ 31\<close>), and the records end at the data end. This
  predicate is not part of the module; it states when a walk stays in step.
\<close>

function tiled :: "nat \<Rightarrow> fragment \<Rightarrow> nat \<Rightarrow> bool" where
  "tiled hw frag p =
     (if p = dataEnd frag then True
      else if dataEnd frag < p then False
      else case reform (header_at frag p) of
             None \<Rightarrow> False
           | Some d \<Rightarrow>
               if problem_timestamp (FirstSample d) then False
               else if hw = 0 \<or> length_words (header_at frag p) < int hw
                       \<or> int hw + 2 ^ 31 \<le> length_words (header_at frag p) then False
               else tiled hw frag (p + nat (length_words (header_at frag p))))"
  by pat_completeness auto
termination
  by (relation "measure (\<lambda>(hw, frag, p). dataEnd frag - p)") auto

declare tiled.simps [simp del]

section \<open>Event analysis\<close>

text \<open>
  A decoded waveform of the second input collection: the channel (an unsigned int,
  converted to \<open>int\<close>) and the ADC samples. The histogram of a channel is created from the
  first waveform of the channel, with one time bin per sample; \<open>fSampleFreq\<close> is the
  configured sample frequency, a double.
\<close>

record OpDetWaveform =
  ChannelNumber :: "32 word"
  samples :: "int list"

definition fill_waveform :: "double \<Rightarrow> state \<Rightarrow> OpDetWaveform \<Rightarrow> state" where
  "fill_waveform fSampleFreq st pulse =
     (let channel = sint (ChannelNumber pulse);
          n = length (samples pulse);
          h = (case averageWaveforms st channel of
                 None \<Rightarrow> new_TH2D n (Fin 0) (fdiv (double_of_int (int n)) fSampleFreq)
                           2000 (Fin 1200) (Fin 5200)
               | Some h \<Rightarrow> h);
          h' = fold (\<lambda>tick h. Fill2 h (fdiv (double_of_int (int tick)) fSampleFreq)
                                 (double_of_int (samples pulse ! tick)))
                 [0..<n] h
      in st\<lparr>averageWaveforms := (averageWaveforms st)(channel \<mapsto> h')\<rparr>)"

text \<open>
  What \<open>analyze\<close> takes from the event: whether the first access to the fragment handle
  throws, whether the handle is valid, the waveform collection (\<open>None\<close> when its handle
  cannot be dereferenced) and the fragments.
\<close>

record event =
  size_throws :: bool
  isValid :: bool
  waveformHandle :: "OpDetWaveform list option"
  rawFragments :: "fragment list"

text \<open>
  The ways a member function ends without a result: the two exceptions of \<open>analyze\<close>, the
  use of a null pointer, and an integer conversion or sum that leaves the range of \<open>int\<close>.
\<close>

datatype error = RawNotValid | ProductNotFound | NullPointer | IntOutOfRange

definition analyze :: "nat \<Rightarrow> double \<Rightarrow> event \<Rightarrow> state \<Rightarrow> (error + state) option" where
  "analyze hw fSampleFreq evt st =
     (if size_throws evt then Some (Inr st)
      else if \<not> isValid evt then Some (Inl RawNotValid)
      else case waveformHandle evt of
             None \<Rightarrow> Some (Inl ProductNotFound)
           | Some ws \<Rightarrow>
               map_option Inr
                 (walk_fragments hw (rawFragments evt)
                    (fold (\<lambda>pulse s. fill_waveform fSampleFreq s pulse) ws st)))"

section \<open>End of run\<close>

text \<open>
  Every loop of \<open>endRun\<close> and \<open>endJob\<close> over the channels is
  \<open>for (int i = 0; i < 100; ++i)\<close>. A body that dereferences the null pointer which
  \<open>operator[]\<close> inserts for a missing key ends the run with \<open>NullPointer\<close>.
\<close>

definition channels :: "int list" where
  "channels = map int [0..<100]"

fun for_loop :: "'i list \<Rightarrow> ('i \<Rightarrow> 's \<Rightarrow> error + 's) \<Rightarrow> 's \<Rightarrow> error + 's" where
  "for_loop [] body s = Inr s"
| "for_loop (i # is) body s =
     (case body i s of Inl e \<Rightarrow> Inl e | Inr s' \<Rightarrow> for_loop is body s')"

text \<open>Format output plots: display attributes only, which are not part of the state.\<close>

definition format_plots :: "int \<Rightarrow> state \<Rightarrow> error + state" where
  "format_plots i st =
     (case PulseAmplitudePerChannel st i of
        None \<Rightarrow> Inr st
      | Some _ \<Rightarrow>
          if IntegratedChargePerChannel st i = None
             \<or> PulseAmplitudeVsIntegratedChargePerChannel st i = None
             \<or> averageWaveforms st i = None
          then Inl NullPointer else Inr st)"

text \<open>
  Analyze plots. The two blocks differ in the histogram, the sensitivity and the window
  only, so one function stands for both. The peaks of the search are floats; they and
  their differences are taken as reals here, and a quotient \<open>0.0 / 0\<close>, a NaN, is the
  result \<open>None\<close>.
\<close>

definition spacing_step :: "real \<Rightarrow> real \<Rightarrow> real list \<Rightarrow> nat \<Rightarrow> real \<times> nat \<Rightarrow> real \<times> nat" where
  "spacing_step lo hi peakVec p acc =
     (let diff = peakVec ! (p + 1) - peakVec ! p
      in if diff > hi \<or> diff < lo then acc else (fst acc + diff, snd acc + 1))"

definition peak_spacing :: "real \<Rightarrow> real \<Rightarrow> real list \<Rightarrow> real option" where
  "peak_spacing lo hi peaks =
     (let nPeaks = length peaks;
          peakVec = sort peaks;
          r = fold (spacing_step lo hi peakVec) [1..<nPeaks - 1] (0, 0)
      in if snd r = 0 then None else Some (fst r / real (snd r)))"

definition ADCperPE :: "real list \<Rightarrow> real option" where
  "ADCperPE peaks = peak_spacing 10 20 peaks"

definition INTperPE :: "real list \<Rightarrow> real option" where
  "INTperPE peaks = peak_spacing 1000 1800 peaks"

text \<open>
  \<open>Search\<close> is the external peak search: from a histogram and a sensitivity to the peak
  positions it found. The loop prints one line per channel; the lines are the report.
\<close>

type_synonym report = "(int \<times> real option \<times> real option) list"

definition analyze_plots ::
  "(TH1D \<Rightarrow> real \<Rightarrow> real list) \<Rightarrow> state \<Rightarrow> int \<Rightarrow> report \<Rightarrow> error + report" where
  "analyze_plots Search st i rep =
     (case PulseAmplitudePerChannel st i of
        None \<Rightarrow> Inr rep
      | Some pa \<Rightarrow>
          (case IntegratedChargePerChannel st i of
             None \<Rightarrow> Inl NullPointer
           | Some ic \<Rightarrow> Inr (rep @ [(i, ADCperPE (Search pa 1.5), INTperPE (Search ic 2.5))])))"

text \<open>
  Add pulse amplitude histos to pulse amp vs run histograms. The run number is an
  unsigned 32-bit integer; \<open>double(run.run())\<close> is exact. One cell of the old histogram is
  moved by \<open>transfer_cell\<close>: \<open>int runNum = GetBinLowEdge(binX)\<close> converts the edge to
  \<open>int\<close>, and \<open>FindBin(runNum)\<close> converts it back.
\<close>

definition transfer_cell :: "TH2D \<Rightarrow> nat \<Rightarrow> nat \<Rightarrow> TH2D \<Rightarrow> error + TH2D" where
  "transfer_cell oldHist binX binY h =
     (let oldVal = GetBinContent2 oldHist binX binY
      in case int_of_double (GetBinLowEdge (h2_xaxis oldHist) binX) of
           None \<Rightarrow> Inl IntOutOfRange
         | Some runNum \<Rightarrow>
             (let targBin = FindBin (h2_xaxis h) (double_of_int runNum)
              in Inr (SetBinContent2 h targBin binY oldVal)))"

text \<open>
  Remake the histogram with extended range. \<open>firstRun\<close> and \<open>lastRun\<close> are \<open>int\<close>, and so
  are \<open>lastRun-firstRun+1\<close> and \<open>lastRun+1\<close>. The loops run over the bins \<open>0\<close> to
  \<open>GetNbinsX()\<close> and \<open>0\<close> to \<open>GetNbinsY()\<close> of the old histogram.
\<close>

definition remake :: "TH2D \<Rightarrow> 32 word \<Rightarrow> error + TH2D" where
  "remake oldHist run =
     (case int_of_double (std_min (double_of_int (uint run))
                            (GetBinLowEdge (h2_xaxis oldHist) 1)) of
        None \<Rightarrow> Inl IntOutOfRange
      | Some firstRun \<Rightarrow>
          (case int_of_double (std_max (double_of_int (uint run))
                   (GetBinLowEdge (h2_xaxis oldHist) (fNbins (h2_xaxis oldHist)))) of
             None \<Rightarrow> Inl IntOutOfRange
           | Some lastRun \<Rightarrow>
               if \<not> int_range (lastRun - firstRun) \<or> \<not> int_range (lastRun - firstRun + 1)
                  \<or> \<not> int_range (lastRun + 1)
               then Inl IntOutOfRange
               else for_loop [0..<Suc (fNbins (h2_xaxis oldHist))]
                      (\<lambda>binX. for_loop [0..<Suc (fNbins (h2_yaxis oldHist))]
                                (transfer_cell oldHist binX))
                      (new_TH2D (nat (lastRun - firstRun + 1))
                         (double_of_int firstRun) (double_of_int (lastRun + 1))
                         125 (Fin (-20)) (Fin 230))))"

text \<open>Add the new data: the loop runs over the bins \<open>0\<close> to \<open>GetNbinsX()\<close> of the run's histogram.\<close>

definition add_new_data :: "32 word \<Rightarrow> TH1D \<Rightarrow> TH2D \<Rightarrow> TH2D" where
  "add_new_data run pa h =
     fold (\<lambda>binY h. (let val = h1_bins pa binY;
                         amp = GetBinCenter (h1_axis pa) binY
                     in Fill2w h (double_of_int (uint run)) amp val))
       [0..<Suc (fNbins (h1_axis pa))] h"

text \<open>
  The body of the loop for a channel that has an amplitude histogram \<open>pa\<close> in this run:
  from the channel's entry of \<open>PulseAmpVsRun\<close> to its new entry. In \<open>run.run()+1\<close> the sum
  is unsigned.
\<close>

definition extend :: "32 word \<Rightarrow> TH1D \<Rightarrow> TH2D option \<Rightarrow> error + TH2D" where
  "extend run pa histo =
     (case histo of
        None \<Rightarrow>
          Inr (add_new_data run pa
                 (new_TH2D 1 (double_of_int (uint run)) (double_of_int (uint (run + 1)))
                    125 (Fin (-20)) (Fin 230)))
      | Some oldHist \<Rightarrow>
          (case remake oldHist run of
             Inl e \<Rightarrow> Inl e
           | Inr h \<Rightarrow> Inr (add_new_data run pa h)))"

definition add_to_summary :: "32 word \<Rightarrow> int \<Rightarrow> state \<Rightarrow> error + state" where
  "add_to_summary run i st =
     (case PulseAmplitudePerChannel st i of
        None \<Rightarrow> Inr st
      | Some pa \<Rightarrow>
          (case extend run pa (PulseAmpVsRun st i) of
             Inl e \<Rightarrow> Inl e
           | Inr h \<Rightarrow> Inr (st\<lparr>PulseAmpVsRun := (PulseAmpVsRun st)(i \<mapsto> h)\<rparr>)))"

text \<open>
  \<open>endRun\<close>, without the rate report (log output only) and the FFT loop (it writes
  \<open>waveformFFTs\<close> only, and dereferences nothing the formatting loop has not already).
\<close>

definition endRun ::
  "(TH1D \<Rightarrow> real \<Rightarrow> real list) \<Rightarrow> 32 word \<Rightarrow> state \<Rightarrow> error + state \<times> report" where
  "endRun Search run st =
     (case for_loop channels format_plots st of
        Inl e \<Rightarrow> Inl e
      | Inr st1 \<Rightarrow>
          (case for_loop channels (analyze_plots Search st1) [] of
             Inl e \<Rightarrow> Inl e
           | Inr rep \<Rightarrow>
               (case for_loop channels (add_to_summary run) st1 of
                  Inl e \<Rightarrow> Inl e
                | Inr st2 \<Rightarrow> Inr (st2, rep))))"

section \<open>End of job\<close>

text \<open>The histograms registered with the file service, with the channel of each.\<close>

definition register_histo :: "TH2D \<Rightarrow> TH2D" where
  "register_histo h =
     Add2 (new_TH2D (fNbins (h2_xaxis h))
             (GetBinLowEdge (h2_xaxis h) 1) (GetBinLowEdge (h2_xaxis h) (fNbins (h2_xaxis h) + 1))
             (fNbins (h2_yaxis h))
             (GetBinLowEdge (h2_yaxis h) 1) (GetBinLowEdge (h2_yaxis h) (fNbins (h2_yaxis h) + 1)))
       h"

definition endJob :: "state \<Rightarrow> (int \<times> TH2D) list" where
  "endJob st =
     List.map_filter
       (\<lambda>i. case PulseAmpVsRun st i of None \<Rightarrow> None | Some h \<Rightarrow> Some (i, register_histo h))
       channels"

section \<open>Terms of the statements\<close>

text \<open>
  The reals that are doubles: an integer of less than 54 bits times a power of two, the
  power at least \<open>-1074\<close>. A double is \<open>valid\<close> when it is an infinity, a NaN or such a
  real below \<open>2 ^ 1024\<close> in magnitude; the type \<open>double\<close> has a place for every real, and
  the operations above return valid doubles only.
\<close>

definition representable :: "real \<Rightarrow> bool" where
  "representable x \<longleftrightarrow> (\<exists>m q. x = of_int m * 2 powi q \<and> \<bar>m\<bar> < 2 ^ 53 \<and> - 1074 \<le> q)"

definition valid :: "double \<Rightarrow> bool" where
  "valid d = (case d of Fin x \<Rightarrow> representable x \<and> \<bar>x\<bar> < 2 ^ 1024 | _ \<Rightarrow> True)"


text \<open>
  The differences of consecutive elements of a list, and the average of the differences
  within a window (\<open>None\<close> when there is none): the terms in which the result of
  \<open>peak_spacing\<close> is stated below.
\<close>

fun diffs :: "real list \<Rightarrow> real list" where
  "diffs (x # y # xs) = (y - x) # diffs (y # xs)"
| "diffs _ = []"

definition kept_average :: "real \<Rightarrow> real \<Rightarrow> real list \<Rightarrow> real option" where
  "kept_average lo hi peakVec =
     (let ds = filter (\<lambda>d. lo \<le> d \<and> d \<le> hi) (diffs peakVec)
      in if ds = [] then None else Some (sum_list ds / real (length ds)))"


section \<open>Concrete inputs\<close>

text \<open>An amplitude histogram of one run with a single entry.\<close>

definition one_pulse :: "double \<Rightarrow> TH1D" where
  "one_pulse amp = Fill1 (new_TH1D 125 (Fin (-20)) (Fin 230)) amp"

text \<open>
  Trigger records used as examples: a pulse on channel 7 with a timestamp above the
  threshold, the same pulse with an early timestamp, and a pulse on channel 300.
\<close>

definition pulse7 :: reformatted where
  "pulse7 = \<lparr>OpChannel = 7, FirstSample = 20000000000000000,
              peakSum = Fin 1000, prerise = Fin 500, integratedSum = Fin 3000\<rparr>"

definition early7 :: reformatted where
  "early7 = pulse7\<lparr>FirstSample := 5\<rparr>"

definition pulse300 :: reformatted where
  "pulse300 = pulse7\<lparr>OpChannel := 300\<rparr>"

text \<open>
  Two records with a header of 12 words: the first, of 14 words, cannot be reformatted;
  the second, at offset 14, is \<open>pulse7\<close>. Everything else reads as an unreadable header.
\<close>

definition frag_failed :: fragment where
  "frag_failed =
     \<lparr>nTriggers = 2, dataEnd = 26,
      header_at = (\<lambda>p. if p = 0 then \<lparr>length_words = 14, reform = None\<rparr>
                       else if p = 14 then \<lparr>length_words = 12, reform = Some pulse7\<rparr>
                       else \<lparr>length_words = 0, reform = None\<rparr>)\<rparr>"

text \<open>
  The same two records, the first now readable with the early timestamp: \<open>early7\<close> in 14
  words at offset 0, \<open>pulse7\<close> at offset 14.
\<close>

definition frag_early_first :: fragment where
  "frag_early_first =
     \<lparr>nTriggers = 2, dataEnd = 26,
      header_at = (\<lambda>p. if p = 0 then \<lparr>length_words = 14, reform = Some early7\<rparr>
                       else if p = 14 then \<lparr>length_words = 12, reform = Some pulse7\<rparr>
                       else \<lparr>length_words = 0, reform = None\<rparr>)\<rparr>"

text \<open>A data region of one word, trigger count unknown.\<close>

definition frag_short :: fragment where
  "frag_short =
     \<lparr>nTriggers = 0, dataEnd = 1, header_at = (\<lambda>p. \<lparr>length_words = 12, reform = None\<rparr>)\<rparr>"

text \<open>One record whose declared length, 0, is less than the header.\<close>

definition frag_corrupt :: fragment where
  "frag_corrupt =
     \<lparr>nTriggers = 1, dataEnd = 12,
      header_at = (\<lambda>p. \<lparr>length_words = 0, reform = Some pulse7\<rparr>)\<rparr>"

text \<open>A data region of 100 words filled with records of 20 words, \<open>early7\<close> each.\<close>

definition frag_early :: "32 word \<Rightarrow> fragment" where
  "frag_early n =
     \<lparr>nTriggers = n, dataEnd = 100,
      header_at = (\<lambda>p. \<lparr>length_words = 20, reform = Some early7\<rparr>)\<rparr>"

text \<open>
  An event with one waveform of one sample on channel 7 and no fragment; and an event
  with the same waveform and a fragment of two records, on the channels 7 and 300.
\<close>

definition wave7 :: OpDetWaveform where
  "wave7 = \<lparr>ChannelNumber = 7, samples = [1500]\<rparr>"

definition event_wave :: event where
  "event_wave =
     \<lparr>size_throws = False, isValid = True, waveformHandle = Some [wave7], rawFragments = []\<rparr>"

definition frag_far :: fragment where
  "frag_far =
     \<lparr>nTriggers = 0, dataEnd = 24,
      header_at = (\<lambda>p. if p = 0 then \<lparr>length_words = 12, reform = Some pulse7\<rparr>
                       else \<lparr>length_words = 12, reform = Some pulse300\<rparr>)\<rparr>"

definition event_far :: event where
  "event_far =
     \<lparr>size_throws = False, isValid = True, waveformHandle = Some [wave7],
      rawFragments = [frag_far]\<rparr>"

text \<open>The state after \<open>event_far\<close>, and a peak search that finds the same four peaks everywhere.\<close>

definition st_far :: state where
  "st_far =
     bookkeeping (fills (bookkeeping (fills (fill_waveform (Fin 150) beginJob wave7) pulse7) pulse7)
       pulse300) pulse300"

definition four_peaks :: "TH1D \<Rightarrow> real \<Rightarrow> real list" where
  "four_peaks h sigma = [40, 0, 60, 20]"

text \<open>The summary of channel 7 after a first run, run 1, with the amplitudes of \<open>st_far\<close>.\<close>

definition summary_far :: TH2D where
  "summary_far =
     add_new_data 1 (one_pulse (Fin 99)) (new_TH2D 1 (Fin 1) (Fin 2) 125 (Fin (-20)) (Fin 230))"

section \<open>Rounding\<close>

text \<open>
  The rounding is exact on the reals that are doubles, every result of an operation is a
  valid double, and a result is determined by its binary exponent and the nearest integer
  of the scaled real.
\<close>

lemma bit_length_le: "bit_length n \<le> k \<longleftrightarrow> n < 2 ^ k"
proof (induction n arbitrary: k rule: bit_length.induct)
  case (1 n)
  show ?case
  proof (cases "n = 0")
    case True
    then show ?thesis by (simp add: bit_length.simps)
  next
    case False
    show ?thesis
    proof (cases k)
      case 0
      with False show ?thesis by (simp add: bit_length.simps)
    next
      case (Suc k')
      have "bit_length n \<le> k \<longleftrightarrow> bit_length (n div 2) \<le> k'"
        using False Suc by (subst bit_length.simps) simp
      also have "\<dots> \<longleftrightarrow> n div 2 < 2 ^ k'"
        using 1 [OF False] .
      also have "\<dots> \<longleftrightarrow> n < 2 ^ k"
        using Suc by auto
      finally show ?thesis .
    qed
  qed
qed

lemma bit_length_bounds:
  assumes "0 < n"
  shows "2 ^ (bit_length n - 1) \<le> n" and "n < 2 ^ bit_length n" and "0 < bit_length n"
proof -
  show "n < 2 ^ bit_length n"
    using bit_length_le [of n "bit_length n"] by simp
  show pos: "0 < bit_length n"
    using bit_length_le [of n 0] assms by simp
  have "\<not> bit_length n \<le> bit_length n - 1"
    using pos by simp
  then show "2 ^ (bit_length n - 1) \<le> n"
    by (simp add: bit_length_le)
qed

lemma expo_bounds:
  assumes "x \<noteq> 0"
  shows "2 powi expo x \<le> \<bar>x\<bar>" and "\<bar>x\<bar> < 2 powi (expo x + 1)"
proof -
  show "2 powi expo x \<le> \<bar>x\<bar>"
  proof (cases "1 \<le> \<bar>x\<bar>")
    case True
    define n where "n = nat \<lfloor>\<bar>x\<bar>\<rfloor>"
    have n: "0 < n" using True by (simp add: n_def)
    have e: "expo x = int (bit_length n - 1)"
      using True bit_length_bounds(3) [OF n] by (simp add: expo_def n_def [symmetric])
    have "real (2 ^ (bit_length n - 1)) \<le> real n"
      using bit_length_bounds(1) [OF n] by (simp only: of_nat_le_iff)
    also have "real n \<le> \<bar>x\<bar>"
      using True by (simp add: n_def)
    finally show ?thesis by (simp add: e)
  next
    case False
    define m where "m = \<lceil>1 / \<bar>x\<bar>\<rceil>"
    define n where "n = nat (m - 1)"
    have y: "1 < 1 / \<bar>x\<bar>" using False assms by simp
    then have c: "2 \<le> m" unfolding m_def by linarith
    then have n: "0 < n" by (simp add: n_def)
    have e: "expo x = - int (bit_length n)"
      using False by (simp add: expo_def n_def m_def)
    have "1 / \<bar>x\<bar> \<le> real_of_int m" unfolding m_def by (rule le_of_int_ceiling)
    also have "\<dots> = real n + 1" using c by (simp add: n_def)
    also have "\<dots> \<le> 2 ^ bit_length n"
    proof -
      have "Suc n \<le> 2 ^ bit_length n" using bit_length_bounds(2) [OF n] by simp
      then have "real (Suc n) \<le> real (2 ^ bit_length n)" by (simp only: of_nat_le_iff)
      then show ?thesis by simp
    qed
    finally have "1 / \<bar>x\<bar> \<le> 2 ^ bit_length n" .
    then have "1 / 2 ^ bit_length n \<le> \<bar>x\<bar>"
      using assms by (simp add: field_simps)
    then show ?thesis by (simp add: e power_int_minus_divide)
  qed
  show "\<bar>x\<bar> < 2 powi (expo x + 1)"
  proof (cases "1 \<le> \<bar>x\<bar>")
    case True
    define n where "n = nat \<lfloor>\<bar>x\<bar>\<rfloor>"
    have n: "0 < n" using True by (simp add: n_def)
    have e: "expo x + 1 = int (bit_length n)"
      using True bit_length_bounds(3) [OF n] by (simp add: expo_def n_def [symmetric])
    have "\<bar>x\<bar> < real n + 1"
      using True by (simp add: n_def)
    also have "\<dots> \<le> 2 ^ bit_length n"
    proof -
      have "Suc n \<le> 2 ^ bit_length n" using bit_length_bounds(2) [OF n] by simp
      then have "real (Suc n) \<le> real (2 ^ bit_length n)" by (simp only: of_nat_le_iff)
      then show ?thesis by simp
    qed
    finally show ?thesis by (simp add: e)
  next
    case False
    define m where "m = \<lceil>1 / \<bar>x\<bar>\<rceil>"
    define n where "n = nat (m - 1)"
    have y: "1 < 1 / \<bar>x\<bar>" using False assms by simp
    then have c: "2 \<le> m" unfolding m_def by linarith
    then have n: "0 < n" by (simp add: n_def)
    have e: "expo x + 1 = - int (bit_length n - 1)"
      using False bit_length_bounds(3) [OF n] by (simp add: expo_def n_def m_def)
    have "real (2 ^ (bit_length n - 1)) \<le> real n"
      using bit_length_bounds(1) [OF n] by (simp only: of_nat_le_iff)
    also have "real n = real_of_int m - 1" using c by (simp add: n_def)
    also have "\<dots> < 1 / \<bar>x\<bar>" unfolding m_def by linarith
    finally have "2 ^ (bit_length n - 1) < 1 / \<bar>x\<bar>" by simp
    then have "\<bar>x\<bar> < 1 / 2 ^ (bit_length n - 1)"
      using assms by (simp add: field_simps)
    then show ?thesis by (simp only: e power_int_minus_divide power_int_of_nat)
  qed
qed

lemma rne_of_int [simp]: "rne (of_int k) = k"
  by (simp add: rne_def)

lemma rne_bounds: "\<lfloor>y\<rfloor> \<le> rne y" "rne y \<le> \<lceil>y\<rceil>"
proof -
  show "\<lfloor>y\<rfloor> \<le> rne y"
    by (simp add: rne_def Let_def)
  have "\<lfloor>y\<rfloor> + 1 \<le> \<lceil>y\<rceil>" if "y \<noteq> of_int \<lfloor>y\<rfloor>"
    using that by (metis ceiling_altdef order_refl)
  moreover have "\<lfloor>y\<rfloor> \<le> \<lceil>y\<rceil>"
    by (rule floor_le_ceiling)
  ultimately show "rne y \<le> \<lceil>y\<rceil>"
    by (auto simp add: rne_def Let_def)
qed

lemma rne_abs_le:
  assumes "\<bar>y\<bar> < of_int N"
  shows "\<bar>rne y\<bar> \<le> N"
proof -
  have "- N \<le> \<lfloor>y\<rfloor>" using assms by (simp add: le_floor_iff abs_less_iff)
  moreover have "\<lceil>y\<rceil> \<le> N" using assms by (simp add: ceiling_le_iff abs_less_iff)
  ultimately show ?thesis using rne_bounds [of y] by linarith
qed

lemma rne_0 [simp]: "rne 0 = 0"
  by (simp add: rne_def)

lemma rnd_0 [simp]: "rnd 0 = 0"
  by (simp add: rnd_def)

lemma pow2_less_cancel:
  assumes "(2::real) powi a < 2 powi b"
  shows "a < b"
proof (rule ccontr)
  assume "\<not> a < b"
  then have "(2::real) powi b \<le> 2 powi a"
    by (intro power_int_increasing) simp_all
  with assms show False by simp
qed

lemma scale_bound:
  assumes "x \<noteq> 0"
  shows "\<bar>x / 2 powi (max (expo x) (- 1022) - 52)\<bar> < 2 ^ 53"
proof -
  define q where "q = max (expo x) (- 1022) - 52"
  have "\<bar>x\<bar> < 2 powi (expo x + 1)" by (rule expo_bounds(2) [OF assms])
  also have "(2::real) powi (expo x + 1) \<le> 2 powi (q + 53)"
    by (rule power_int_increasing) (simp_all add: q_def)
  also have "\<dots> = 2 powi q * 2 ^ 53"
    by (simp add: power_int_add)
  finally have "\<bar>x\<bar> / 2 powi q < 2 ^ 53"
    by (simp add: field_simps)
  then show ?thesis
    by (simp add: q_def [symmetric] power_int_abs)
qed

lemma rnd_representable:
  assumes "representable x"
  shows "rnd x = x"
proof (cases "x = 0")
  case True
  then show ?thesis by simp
next
  case False
  from assms obtain m q where x: "x = of_int m * 2 powi q" and m: "\<bar>m\<bar> < 2 ^ 53" and q: "- 1074 \<le> q"
    unfolding representable_def by blast
  define q' where "q' = max (expo x) (- 1022) - 52"
  have "2 powi expo x \<le> \<bar>x\<bar>" by (rule expo_bounds(1) [OF False])
  also have "\<bar>x\<bar> = real_of_int \<bar>m\<bar> * 2 powi q"
    by (simp add: x abs_mult power_int_abs)
  also have "\<dots> < 2 ^ 53 * 2 powi q"
  proof -
    have "real_of_int \<bar>m\<bar> < real_of_int (2 ^ 53)" using m by (simp only: of_int_less_iff)
    then show ?thesis by simp
  qed
  also have "\<dots> = 2 powi (q + 53)"
    by (simp add: power_int_add)
  finally have "expo x < q + 53"
    by (rule pow2_less_cancel)
  then have le: "q' \<le> q" using q by (simp add: q'_def)
  have "x / 2 powi q' = of_int m * 2 powi (q - q')"
    by (simp add: x power_int_diff)
  also have "\<dots> = of_int (m * 2 ^ nat (q - q'))"
    using le by (simp add: power_int_nonneg_exp)
  finally have "rne (x / 2 powi q') = m * 2 ^ nat (q - q')"
    by (simp only: rne_of_int)
  then have "rnd x = of_int (m * 2 ^ nat (q - q')) * 2 powi q'"
    by (simp add: rnd_def q'_def [symmetric])
  also have "\<dots> = of_int m * (2 powi (q - q') * 2 powi q')"
    using le by (simp add: power_int_nonneg_exp)
  also have "\<dots> = of_int m * 2 powi q"
    by (simp add: power_int_add [symmetric])
  finally show ?thesis by (simp add: x)
qed

lemma representable_rnd: "representable (rnd x)"
proof (cases "x = 0")
  case True
  have "(0::real) = of_int 0 * 2 powi 0" by simp
  then have "representable 0" unfolding representable_def by (intro exI [of _ 0]) simp
  with True show ?thesis by simp
next
  case False
  define q where "q = max (expo x) (- 1022) - 52"
  define R where "R = rne (x / 2 powi q)"
  have r: "rnd x = of_int R * 2 powi q"
    by (simp add: rnd_def q_def R_def Let_def)
  have q: "- 1074 \<le> q" by (simp add: q_def)
  have "\<bar>x / 2 powi q\<bar> < real_of_int (2 ^ 53)"
    using scale_bound [OF False] by (simp add: q_def)
  then have R: "\<bar>R\<bar> \<le> 2 ^ 53" unfolding R_def by (rule rne_abs_le)
  show ?thesis
  proof (cases "\<bar>R\<bar> < 2 ^ 53")
    case True
    with r q show ?thesis unfolding representable_def by blast
  next
    case False
    with R have "\<bar>R\<bar> = 2 ^ 53" by simp
    then have "R = 2 * (sgn R * 2 ^ 52)"
      by (cases "0 \<le> R") (simp_all add: sgn_if)
    then have "rnd x = of_int (sgn R * 2 ^ 52) * 2 powi (q + 1)"
      unfolding r by (simp add: power_int_add)
    moreover have "\<bar>sgn R * 2 ^ 52\<bar> < (2::int) ^ 53"
      by (simp add: abs_mult sgn_if)
    moreover have "- 1074 \<le> q + 1" using q by simp
    ultimately show ?thesis unfolding representable_def by blast
  qed
qed

lemma rnd_idem [simp]: "rnd (rnd x) = rnd x"
  by (rule rnd_representable) (rule representable_rnd)

lemma valid_fl: "valid (fl x)"
  using representable_rnd [of x] by (auto simp add: valid_def fl_def Let_def abs_less_iff)

lemma fl_exact:
  assumes "representable x" and "\<bar>x\<bar> < 2 ^ 1024"
  shows "fl x = Fin x"
  using assms by (auto simp add: fl_def rnd_representable)

lemma fl_0 [simp]: "fl 0 = Fin 0"
  by (simp add: fl_def)

lemma representable_int:
  assumes "\<bar>k\<bar> \<le> 2 ^ 53"
  shows "representable (of_int k)"
proof (cases "\<bar>k\<bar> < 2 ^ 53")
  case True
  have "real_of_int k = of_int k * 2 powi 0" by simp
  with True show ?thesis unfolding representable_def by (intro exI [of _ k] exI [of _ 0]) simp
next
  case False
  with assms have "\<bar>k\<bar> = 2 ^ 53" by simp
  then have "k = 2 * (sgn k * 2 ^ 52)" by (cases "0 \<le> k") (simp_all add: sgn_if)
  then have "real_of_int k = of_int (sgn k * 2 ^ 52) * 2 powi 1"
    by (metis mult.commute of_int_mult of_int_numeral power_int_1_right)
  moreover have "\<bar>sgn k * 2 ^ 52\<bar> < (2::int) ^ 53" by (simp add: abs_mult sgn_if)
  ultimately show ?thesis unfolding representable_def by (intro exI [of _ "sgn k * 2 ^ 52"] exI [of _ 1]) simp
qed

lemma representable_dyadic:
  assumes "\<bar>m\<bar> < 2 ^ 53" and "n \<le> 1074"
  shows "representable (of_int m / 2 ^ n)"
proof -
  have "real_of_int m / 2 ^ n = of_int m * 2 powi (- int n)"
    by (simp add: power_int_minus_divide)
  moreover have "- 1074 \<le> - int n" using assms(2) by simp
  ultimately show ?thesis using assms(1) unfolding representable_def by blast
qed

lemma fl_int:
  assumes "\<bar>k\<bar> \<le> 2 ^ 53"
  shows "fl (of_int k) = Fin (of_int k)"
proof (rule fl_exact [OF representable_int [OF assms]])
  have "real_of_int \<bar>k\<bar> \<le> real_of_int (2 ^ 53)" using assms by (simp only: of_int_le_iff)
  then have "\<bar>real_of_int k\<bar> \<le> 2 ^ 53" by simp
  also have "(2::real) ^ 53 < 2 ^ 1024" by simp
  finally show "\<bar>real_of_int k\<bar> < 2 ^ 1024" .
qed

lemma fl_dyadic:
  assumes "\<bar>m\<bar> < 2 ^ 53" and "n \<le> 1074"
  shows "fl (of_int m / 2 ^ n) = Fin (of_int m / 2 ^ n)"
proof (rule fl_exact [OF representable_dyadic [OF assms]])
  have "real_of_int \<bar>m\<bar> < real_of_int (2 ^ 53)" using assms(1) by (simp only: of_int_less_iff)
  then have "\<bar>real_of_int m\<bar> < 2 ^ 53" by simp
  moreover have "\<bar>real_of_int m / 2 ^ n\<bar> \<le> \<bar>real_of_int m\<bar>"
    by (simp add: field_simps mult_le_cancel_left1)
  moreover have "(2::real) ^ 53 < 2 ^ 1024" by simp
  ultimately show "\<bar>real_of_int m / 2 ^ n\<bar> < 2 ^ 1024" by linarith
qed

lemma rne_near:
  assumes "\<bar>y - of_int R\<bar> < 1 / 2"
  shows "rne y = R"
proof -
  have a: "y - of_int R < 1 / 2" and b: "- (y - of_int R) < 1 / 2"
    using assms unfolding abs_less_iff by blast+
  have "real_of_int (R - 1) \<le> y" using b by simp
  then have "R - 1 \<le> \<lfloor>y\<rfloor>" by (simp only: le_floor_iff)
  moreover have "y < real_of_int (R + 1)" using a by simp
  then have "\<lfloor>y\<rfloor> < R + 1" by (simp only: floor_less_iff)
  ultimately have "\<lfloor>y\<rfloor> = R \<or> \<lfloor>y\<rfloor> = R - 1"
    by linarith
  then show ?thesis
  proof
    assume f: "\<lfloor>y\<rfloor> = R"
    then have "y - of_int \<lfloor>y\<rfloor> < 1 / 2" using a by simp
    then show ?thesis using f by (simp add: rne_def Let_def)
  next
    assume f: "\<lfloor>y\<rfloor> = R - 1"
    then have "1 / 2 < y - of_int \<lfloor>y\<rfloor>" using b by simp
    then show ?thesis using f by (simp add: rne_def Let_def)
  qed
qed

lemma expo_eqI:
  assumes "2 powi e \<le> \<bar>x\<bar>" and "\<bar>x\<bar> < 2 powi (e + 1)"
  shows "expo x = e"
proof -
  have "(0::real) < 2 powi e" by (rule zero_less_power_int) simp
  with assms(1) have "0 < \<bar>x\<bar>" by linarith
  then have nz: "x \<noteq> 0" by simp
  have "(2::real) powi expo x < 2 powi (e + 1)"
    using expo_bounds(1) [OF nz] assms(2) by simp
  then have "expo x < e + 1" by (rule pow2_less_cancel)
  moreover have "(2::real) powi e < 2 powi (expo x + 1)"
    using expo_bounds(2) [OF nz] assms(1) by simp
  then have "e < expo x + 1" by (rule pow2_less_cancel)
  ultimately show ?thesis by simp
qed

lemma rnd_eqI:
  assumes "2 powi e \<le> \<bar>x\<bar>" and "\<bar>x\<bar> < 2 powi (e + 1)" and "- 1022 \<le> e"
    and "\<bar>x / 2 powi (e - 52) - of_int R\<bar> < 1 / 2"
  shows "rnd x = of_int R * 2 powi (e - 52)"
proof -
  have e: "expo x = e" by (rule expo_eqI [OF assms(1,2)])
  have q: "max e (- 1022) - 52 = e - 52" using assms(3) by simp
  show ?thesis
    unfolding rnd_def e q Let_def rne_near [OF assms(4)] ..
qed

lemma rne_tie:
  assumes "y = of_int R + 1 / 2"
  shows "rne y = (if even R then R else R + 1)"
proof -
  have "\<lfloor>y\<rfloor> = R"
    unfolding assms by (rule floor_unique) simp_all
  then show ?thesis
    by (simp add: rne_def Let_def assms)
qed

lemma rnd_tieI:
  assumes "2 powi e \<le> \<bar>x\<bar>" and "\<bar>x\<bar> < 2 powi (e + 1)" and "- 1022 \<le> e"
    and "x / 2 powi (e - 52) = of_int R + 1 / 2"
  shows "rnd x = of_int (if even R then R else R + 1) * 2 powi (e - 52)"
proof -
  have e: "expo x = e" by (rule expo_eqI [OF assms(1,2)])
  have q: "max e (- 1022) - 52 = e - 52" using assms(3) by simp
  show ?thesis
    unfolding rnd_def e q Let_def rne_tie [OF assms(4)] ..
qed

lemma fl_1 [simp]: "fl 1 = Fin 1"
  using fl_int [of 1] by simp

lemma fl_m1 [simp]: "fl (- 1) = Fin (- 1)"
  using fl_int [of "- 1"] by simp

lemma fl_numeral:
  assumes "(numeral n :: int) \<le> 2 ^ 53"
  shows "fl (numeral n) = Fin (numeral n)" and "fl (- numeral n) = Fin (- numeral n)"
  using fl_int [of "numeral n"] fl_int [of "- numeral n"] assms by simp_all

lemma fl_half:
  assumes "(numeral n :: int) < 2 ^ 53"
  shows "fl (numeral n / 2) = Fin (numeral n / 2)"
  using fl_dyadic [of "numeral n" 1] assms by simp

lemma double_of_int_exact: "\<bar>k\<bar> \<le> 2 ^ 53 \<Longrightarrow> double_of_int k = Fin (of_int k)"
  by (simp add: double_of_int_def fl_int)

lemma double_of_int_numeral:
  assumes "(numeral n :: int) \<le> 2 ^ 53"
  shows "double_of_int (numeral n) = Fin (numeral n)"
    and "double_of_int (- numeral n) = Fin (- numeral n)"
  using double_of_int_exact [of "numeral n"] double_of_int_exact [of "- numeral n"] assms
  by simp_all

lemma double_of_int_01 [simp]: "double_of_int 0 = Fin 0" "double_of_int 1 = Fin 1"
  by (simp_all add: double_of_int_def)

lemmas fl_simps = fl_numeral fl_half double_of_int_numeral fsub_def







lemma representable_0: "representable 0"
  using representable_int [of 0] by simp

lemma valid_Fin_0 [simp]: "valid (Fin 0)"
  by (simp add: valid_def representable_0)

lemma valid_Fin_1 [simp]: "valid (Fin 1)"
  using valid_fl [of 1] by simp

lemma valid_inf [simp]: "valid PInf" "valid NInf" "valid NaN"
  by (simp_all add: valid_def)

lemma valid_fadd [simp]: "valid (fadd a b)"
  by (cases a; cases b) (simp_all add: valid_fl)

lemma valid_fmul [simp]: "valid (fmul a b)"
  by (cases a; cases b) (simp_all add: valid_fl)

lemma valid_fdiv [simp]: "valid (fdiv a b)"
  by (cases a; cases b) (simp_all add: valid_fl)

lemma fmul_one: "valid d \<Longrightarrow> fmul d (Fin 1) = d"
  by (cases d) (simp_all add: valid_def fl_exact)



lemma fl_half_Ints:
  assumes "2 * x \<in> \<int>" and "\<bar>x\<bar> < 2 ^ 52"
  shows "fl x = Fin x"
proof -
  from assms(1) obtain k where k: "2 * x = of_int k" by (rule Ints_cases)
  then have x: "x = of_int k / 2 ^ 1" by simp
  have "real_of_int \<bar>k\<bar> < real_of_int (2 ^ 53)" using assms(2) k [symmetric] by simp
  then have "\<bar>k\<bar> < 2 ^ 53" by (simp only: of_int_less_iff)
  then show ?thesis unfolding x by (rule fl_dyadic) simp
qed



section \<open>The timestamp test\<close>

text \<open>
  The threshold \<open>1e16\<close> is a double, and \<open>10 ^ 16 - 1\<close> rounds up to it: the test
  \<open>FirstSample < 1e16\<close> holds for the timestamps up to \<open>10 ^ 16 - 2\<close>.
\<close>

lemma to_double_small:
  assumes "unat w < 2 ^ 53"
  shows "ulong_to_double w = unat w"
proof -
  have "bit_length (unat w) \<le> 53" using assms by (simp add: bit_length_le)
  then have "bit_length (unat w) - 53 = 0" by simp
  then show ?thesis by (simp add: ulong_to_double_def Let_def)
qed

lemma to_double_mid:
  assumes "2 ^ 53 \<le> unat w" "unat w < 2 ^ 54"
  shows "ulong_to_double w < 10 ^ 16 \<longleftrightarrow> unat w < 10 ^ 16 - 1"
proof -
  have "bit_length (unat w) \<le> 54" using assms by (simp add: bit_length_le)
  moreover have "\<not> bit_length (unat w) \<le> 53" using assms by (simp add: bit_length_le)
  ultimately have e: "bit_length (unat w) - 53 = 1" by simp
  define n where "n = unat w"
  have "ulong_to_double w =
          (if 2 * (n mod 2 ^ 1) < 2 ^ 1 \<or> (2 * (n mod 2 ^ 1) = 2 ^ 1 \<and> even (n div 2 ^ 1))
           then n div 2 ^ 1 * 2 ^ 1 else (n div 2 ^ 1 + 1) * 2 ^ 1)"
    unfolding ulong_to_double_def Let_def e n_def ..
  then have v: "ulong_to_double w =
          (if 2 * (n mod 2) < 2 \<or> (2 * (n mod 2) = 2 \<and> even (n div 2))
           then n div 2 * 2 else (n div 2 + 1) * 2)"
    by (simp only: power_one_right)
  have "ulong_to_double w < 10000000000000000 \<longleftrightarrow> n < 9999999999999999"
    unfolding v by presburger
  then show ?thesis
    by (simp add: n_def)
qed

lemma to_double_large:
  assumes "2 ^ 54 \<le> unat w"
  shows "2 ^ 54 \<le> ulong_to_double w"
proof -
  define n where "n = unat w"
  define b where "b = bit_length n"
  define e where "e = b - 53"
  have "\<not> bit_length n \<le> 54" using assms by (simp add: bit_length_le n_def)
  then have b: "55 \<le> b" by (simp add: b_def)
  have "\<not> bit_length n \<le> b - 1" using b by (simp add: b_def)
  then have low: "2 ^ (b - 1) \<le> n" by (simp add: bit_length_le)
  have split: "b - 1 = 52 + e" using b by (simp add: e_def)
  have "2 ^ (52 + e) \<le> n" using low unfolding split .
  then have "2 ^ 52 * 2 ^ e \<le> n" by (simp add: power_add)
  then have "2 ^ 52 \<le> n div 2 ^ e"
    by (simp add: less_eq_div_iff_mult_less_eq)
  then have "2 ^ 52 * 2 ^ e \<le> n div 2 ^ e * 2 ^ e"
    by simp
  moreover have "(2::nat) ^ 54 \<le> 2 ^ 52 * 2 ^ e"
  proof -
    have "2 \<le> e" using b by (simp add: e_def)
    then have "(2::nat) ^ 2 \<le> 2 ^ e" by (rule power_increasing) simp
    then show ?thesis by simp
  qed
  ultimately have q: "2 ^ 54 \<le> n div 2 ^ e * 2 ^ e" by linarith
  have "n div 2 ^ e * 2 ^ e \<le> (n div 2 ^ e + 1) * 2 ^ e" by simp
  with q have q': "2 ^ 54 \<le> (n div 2 ^ e + 1) * 2 ^ e" by linarith
  show ?thesis
    using q q' by (simp add: ulong_to_double_def Let_def n_def [symmetric] b_def [symmetric] e_def [symmetric])
qed

lemma problem_timestamp_iff: "problem_timestamp fs \<longleftrightarrow> unat fs < 10 ^ 16 - 1"
proof -
  consider "unat fs < 2 ^ 53" | "2 ^ 53 \<le> unat fs" "unat fs < 2 ^ 54" | "2 ^ 54 \<le> unat fs"
    by linarith
  then show ?thesis
  proof cases
    case 1
    then show ?thesis by (simp add: problem_timestamp_def to_double_small)
  next
    case 2
    from to_double_mid [OF 2] show ?thesis by (simp add: problem_timestamp_def)
  next
    case 3
    from to_double_large [OF 3] have "\<not> ulong_to_double fs < 10 ^ 16" by simp
    moreover have "\<not> unat fs < 10 ^ 16 - 1" using 3 by simp
    ultimately show ?thesis by (simp add: problem_timestamp_def)
  qed
qed

section \<open>The trigger loop ends\<close>

lemma process_trigger_advance: "dataPointer + hw \<le> snd (process_trigger hw frag st dataPointer)"
  by (simp add: process_trigger_def Let_def split: option.splits)


lemma unat_succ: "(tp :: 32 word) < N \<Longrightarrow> unat (tp + 1) = Suc (unat tp)"
proof -
  assume "tp < N"
  then have "unat tp < unat N" by (simp add: word_less_nat_alt)
  moreover have "unat N < 2 ^ 32" using unsigned_less [of N, where ?'a = nat] by simp
  ultimately have "unat tp + 1 < 2 ^ 32" by simp
  then show ?thesis by (simp add: unat_word_ariths)
qed

lemma walk_counted:
  assumes "nTriggers frag \<noteq> 0"
  shows "\<exists>st' p' ls. walk hw frag st tp p loads = Some (st', p', loads @ ls)
           \<and> length ls \<le> unat (nTriggers frag) - unat tp
           \<and> (p' < dataEnd frag \<longrightarrow> length ls = unat (nTriggers frag) - unat tp)"
proof (induction "unat (nTriggers frag) - unat tp" arbitrary: st tp p loads)
  case 0
  then have "\<not> tp < nTriggers frag"
    by (simp add: word_less_nat_alt)
  with assms have "walk hw frag st tp p loads = Some (st, p, loads)"
    by (subst walk.simps) simp
  with 0 show ?case by simp
next
  case (Suc k)
  then have lt: "tp < nTriggers frag"
    by (simp add: word_less_nat_alt)
  show ?case
  proof (cases "p < dataEnd frag")
    case False
    then have "walk hw frag st tp p loads = Some (st, p, loads)"
      by (subst walk.simps) simp
    with False show ?thesis by simp
  next
    case True
    define r where "r = process_trigger hw frag st p"
    have step: "walk hw frag st tp p loads = walk hw frag (fst r) (tp + 1) (snd r) (loads @ [p])"
      using lt True by (subst walk.simps) (simp add: r_def Let_def)
    have k: "k = unat (nTriggers frag) - unat (tp + 1)"
      using Suc.hyps(2) unat_succ [OF lt] by simp
    from Suc.hyps(1) [OF k, of "fst r" "snd r" "loads @ [p]"]
    obtain st' p' ls where
      w: "walk hw frag (fst r) (tp + 1) (snd r) (loads @ [p]) = Some (st', p', (loads @ [p]) @ ls)"
      and le: "length ls \<le> unat (nTriggers frag) - unat (tp + 1)"
      and eq: "p' < dataEnd frag \<longrightarrow> length ls = unat (nTriggers frag) - unat (tp + 1)"
      by blast
    have "walk hw frag st tp p loads = Some (st', p', loads @ (p # ls))"
      using step w by simp
    moreover have "length (p # ls) \<le> unat (nTriggers frag) - unat tp"
      using le k Suc.hyps(2) by simp
    moreover have "p' < dataEnd frag \<longrightarrow> length (p # ls) = unat (nTriggers frag) - unat tp"
      using eq k Suc.hyps(2) by simp
    ultimately show ?thesis by blast
  qed
qed

lemma walk_uncounted:
  assumes "0 < hw" and "nTriggers frag = 0"
  shows "\<exists>st' p' ls. walk hw frag st tp p loads = Some (st', p', loads @ ls)
           \<and> dataEnd frag \<le> p' \<and> (\<forall>q\<in>set ls. q < dataEnd frag)"
proof (induction "dataEnd frag - p" arbitrary: st tp p loads rule: less_induct)
  case less
  show ?case
  proof (cases "p < dataEnd frag")
    case False
    then have "walk hw frag st tp p loads = Some (st, p, loads)"
      by (subst walk.simps) simp
    with False show ?thesis by simp
  next
    case True
    define r where "r = process_trigger hw frag st p"
    have step: "walk hw frag st tp p loads = walk hw frag (fst r) (tp + 1) (snd r) (loads @ [p])"
      using assms(2) True by (subst walk.simps) (simp add: r_def Let_def)
    have "p + hw \<le> snd r"
      unfolding r_def by (rule process_trigger_advance)
    with assms(1) True have "dataEnd frag - snd r < dataEnd frag - p" by simp
    from less [OF this, of "fst r" "tp + 1" "loads @ [p]"]
    obtain st' p' ls where
      w: "walk hw frag (fst r) (tp + 1) (snd r) (loads @ [p]) = Some (st', p', (loads @ [p]) @ ls)"
      and e: "dataEnd frag \<le> p'" and b: "\<forall>q\<in>set ls. q < dataEnd frag"
      by blast
    have "walk hw frag st tp p loads = Some (st', p', loads @ (p # ls))"
      using step w by simp
    moreover have "\<forall>q\<in>set (p # ls). q < dataEnd frag"
      using b True by simp
    ultimately show ?thesis using e by blast
  qed
qed

section \<open>The record length\<close>

lemma unat_nADC: "unat (nADC hw len) = nat ((2 * (len - int hw)) mod 2 ^ 32)"
proof -
  have "unat (nADC hw len) = nat (uint (nADC hw len))"
    by (rule unat_eq_nat_uint)
  also have "uint (nADC hw len) = ((len - int hw) * 2) mod 2 ^ LENGTH(32)"
    unfolding nADC_def by (rule uint_word_of_int)
  also have "LENGTH(32) = 32"
    by simp
  finally show ?thesis by (simp only: mult.commute)
qed

lemma unat_nADC_half: "unat (nADC hw len div 2) = nat ((len - int hw) mod 2 ^ 31)"
proof -
  have "unat (nADC hw len div 2) = unat (nADC hw len) div 2"
    by (simp add: unat_div)
  also have "\<dots> = nat ((2 * (len - int hw)) mod 2 ^ 32) div 2"
    by (simp add: unat_nADC)
  also have "(2 * (len - int hw)) mod 2 ^ 32 = 2 * ((len - int hw) mod 2 ^ 31)"
    using mult_mod_right [of 2 "len - int hw" "2 ^ 31"] by simp
  finally show ?thesis by simp
qed

lemma pulse7_ok: "\<not> problem_timestamp (FirstSample pulse7)"
  by (simp add: problem_timestamp_iff pulse7_def)

lemma early7_problem: "problem_timestamp (FirstSample early7)"
  by (simp add: problem_timestamp_iff early7_def pulse7_def)

lemma walk_tiled:
  assumes "nTriggers frag = 0" and "tiled hw frag p"
  shows "\<exists>st' ls. walk hw frag st tp p loads = Some (st', dataEnd frag, loads @ ls)
           \<and> (\<forall>q\<in>set ls. q + hw \<le> dataEnd frag)"
  using assms(2,1)
proof (induction hw frag p arbitrary: st tp loads rule: tiled.induct)
  case (1 hw frag p)
  note zero = "1.prems"(2)
  show ?case
  proof (cases "p = dataEnd frag")
    case True
    then have "walk hw frag st tp p loads = Some (st, dataEnd frag, loads)"
      by (subst walk.simps) simp
    then show ?thesis by simp
  next
    case False
    from "1.prems"(1) False obtain d where
      lt: "p < dataEnd frag" and d: "reform (header_at frag p) = Some d"
      and ts: "\<not> problem_timestamp (FirstSample d)"
      and hw: "hw \<noteq> 0" and lo: "int hw \<le> length_words (header_at frag p)"
      and hi: "length_words (header_at frag p) < int hw + 2 ^ 31"
      and rest: "tiled hw frag (p + nat (length_words (header_at frag p)))"
      by (subst (asm) tiled.simps) (auto split: option.splits if_splits)
    define len where "len = length_words (header_at frag p)"
    have adv: "unat (nADC hw len div 2) = nat (len - int hw)"
      using lo hi unfolding len_def [symmetric] by (simp add: unat_nADC_half)
    have r: "process_trigger hw frag st p = (bookkeeping (fills st d) d, p + nat len)"
      using d ts lo adv by (simp add: process_trigger_def Let_def len_def [symmetric])
    have step: "walk hw frag st tp p loads
                  = walk hw frag (bookkeeping (fills st d) d) (tp + 1) (p + nat len) (loads @ [p])"
      using zero lt by (subst walk.simps) (simp add: r Let_def)
    have nlt: "\<not> dataEnd frag < p" using lt by simp
    have c: "\<not> (hw = 0 \<or> length_words (header_at frag p) < int hw
                \<or> int hw + 2 ^ 31 \<le> length_words (header_at frag p))"
      using hw lo hi by simp
    from "1.IH" [OF False nlt d ts c rest zero, of "bookkeeping (fills st d) d" "tp + 1" "loads @ [p]"]
    obtain st' ls where
      w: "walk hw frag (bookkeeping (fills st d) d) (tp + 1) (p + nat len) (loads @ [p])
            = Some (st', dataEnd frag, (loads @ [p]) @ ls)"
      and b: "\<forall>q\<in>set ls. q + hw \<le> dataEnd frag"
      unfolding len_def by blast
    have inside: "p + nat len \<le> dataEnd frag"
    proof (rule ccontr)
      assume "\<not> p + nat len \<le> dataEnd frag"
      then have "\<not> tiled hw frag (p + nat len)"
        by (subst tiled.simps) simp
      with rest show False by (simp add: len_def)
    qed
    have "p + hw \<le> dataEnd frag"
      using inside lo by (simp add: len_def)
    then have "\<forall>q\<in>set (p # ls). q + hw \<le> dataEnd frag"
      using b by simp
    moreover have "walk hw frag st tp p loads = Some (st', dataEnd frag, loads @ (p # ls))"
      using step w by simp
    ultimately show ?thesis by blast
  qed
qed

section \<open>The run summary loops\<close>




lemma Fill2w_axes [simp]:
  "h2_xaxis (Fill2w h x y w) = h2_xaxis h" "h2_yaxis (Fill2w h x y w) = h2_yaxis h"
  by (simp_all add: Fill2w_def Let_def)

lemma SetBinContent2_axes [simp]:
  "h2_xaxis (SetBinContent2 h bx by v) = h2_xaxis h" "h2_yaxis (SetBinContent2 h bx by v) = h2_yaxis h"
  by (simp_all add: SetBinContent2_def)
















section \<open>The loops over the channels\<close>

lemma spacing_fold:
  "fold (spacing_step lo hi s) ps (a, k)
     = (a + sum_list (filter (\<lambda>d. lo \<le> d \<and> d \<le> hi) (map (\<lambda>p. s ! (p + 1) - s ! p) ps)),
        k + length (filter (\<lambda>d. lo \<le> d \<and> d \<le> hi) (map (\<lambda>p. s ! (p + 1) - s ! p) ps)))"
  by (induction ps arbitrary: a k) (auto simp add: spacing_step_def Let_def)

lemma diffs_nth: "diffs xs = map (\<lambda>p. xs ! (p + 1) - xs ! p) [0..<length xs - 1]"
proof (induction xs rule: diffs.induct)
  case (1 x y xs)
  have "[0..<length (x # y # xs) - 1] = 0 # map Suc [0..<length (y # xs) - 1]"
    by (simp add: upt_conv_Cons map_Suc_upt del: upt_Suc)
  then show ?case
    using 1 by (simp add: comp_def del: upt_Suc)
qed simp_all

lemma diffs_tl: "map (\<lambda>p. s ! (p + 1) - s ! p) [1..<length s - 1] = diffs (tl s)"
proof -
  have "[1..<length s - 1] = map Suc [0..<length (tl s) - 1]"
  proof (cases "length s < 2")
    case True
    then show ?thesis by (cases s) simp_all
  next
    case False
    then have "length s - 1 = Suc (length (tl s) - 1)" by simp
    then show ?thesis by (simp add: map_Suc_upt del: upt_Suc)
  qed
  moreover have "\<forall>p \<in> set [0..<length (tl s) - 1]. tl s ! (p + 1) - tl s ! p = s ! (Suc p + 1) - s ! Suc p"
    by (cases s) (auto simp add: nth_tl)
  ultimately show ?thesis
    by (simp add: diffs_nth comp_def del: upt_Suc)
qed

lemma peak_spacing_eq: "peak_spacing lo hi peaks = kept_average lo hi (tl (sort peaks))"
proof -
  have "fold (spacing_step lo hi (sort peaks)) [1..<length peaks - 1] (0, 0)
          = (sum_list (filter (\<lambda>d. lo \<le> d \<and> d \<le> hi) (diffs (tl (sort peaks)))),
             length (filter (\<lambda>d. lo \<le> d \<and> d \<le> hi) (diffs (tl (sort peaks)))))"
    using diffs_tl [of "sort peaks"] by (simp add: spacing_fold del: upt_Suc)
  then show ?thesis
    by (simp add: peak_spacing_def kept_average_def Let_def)
qed

lemma channels_range: "i \<in> set channels \<Longrightarrow> 0 \<le> i \<and> i < 100"
  by (auto simp add: channels_def)

lemma for_loop_invariant:
  assumes "for_loop is body s = Inr s'" and "P s"
    and "\<And>i t t'. i \<in> set is \<Longrightarrow> P t \<Longrightarrow> body i t = Inr t' \<Longrightarrow> P t'"
  shows "P s'"
  using assms
proof (induction "is" arbitrary: s)
  case Nil
  then show ?case by simp
next
  case (Cons i "is")
  from Cons.prems(1) obtain t where b: "body i s = Inr t" and r: "for_loop is body t = Inr s'"
    by (auto split: sum.splits)
  have pt: "P t" using Cons.prems(3) [of i s t] Cons.prems(2) b by simp
  show ?case
  proof (rule Cons.IH [OF r pt])
    fix j u u'
    assume "j \<in> set is" and "P u" and "body j u = Inr u'"
    then show "P u'" using Cons.prems(3) [of j u u'] by simp
  qed
qed

lemma format_plots_same: "format_plots i st = Inr st' \<Longrightarrow> st' = st"
  by (auto simp add: format_plots_def split: option.splits if_splits)

lemma format_loop_same:
  assumes "for_loop is format_plots st = Inr st'"
  shows "st' = st"
  using for_loop_invariant [OF assms, of "\<lambda>t. t = st"] format_plots_same by blast

lemma analyze_loop_channels:
  assumes "for_loop channels (analyze_plots Search st) [] = Inr rep" and "100 \<le> c"
  shows "c \<notin> fst ` set rep"
proof -
  have step: "c \<notin> fst ` set t'"
    if "i \<in> set channels" and "c \<notin> fst ` set t" and "analyze_plots Search st i t = Inr t'"
    for i t t'
  proof -
    have "i \<noteq> c" using channels_range [OF that(1)] assms(2) by simp
    moreover have "t' = t \<or> (\<exists>a b. t' = t @ [(i, a, b)])"
      using that(3) by (auto simp add: analyze_plots_def split: option.splits)
    ultimately show ?thesis using that(2) by auto
  qed
  from for_loop_invariant [OF assms(1), of "\<lambda>t. c \<notin> fst ` set t", OF _ step]
  show ?thesis by simp
qed

lemma summary_loop_channels:
  assumes "for_loop channels (add_to_summary run) st = Inr st'" and "100 \<le> c"
  shows "PulseAmpVsRun st' c = PulseAmpVsRun st c"
proof -
  have step: "PulseAmpVsRun t' c = PulseAmpVsRun st c"
    if "i \<in> set channels" and "PulseAmpVsRun t c = PulseAmpVsRun st c"
      and "add_to_summary run i t = Inr t'"
    for i t t'
  proof -
    have "i \<noteq> c" using channels_range [OF that(1)] assms(2) by simp
    then have "PulseAmpVsRun t' c = PulseAmpVsRun t c"
      using that(3) by (auto simp add: add_to_summary_def split: option.splits sum.splits)
    then show ?thesis using that(2) by simp
  qed
  from for_loop_invariant [OF assms(1), of "\<lambda>t. PulseAmpVsRun t c = PulseAmpVsRun st c", OF _ step]
  show ?thesis by simp
qed

lemma endRun_channels:
  assumes "endRun Search run st = Inr (st', rep)" and "100 \<le> c"
  shows "PulseAmpVsRun st' c = PulseAmpVsRun st c \<and> c \<notin> fst ` set rep"
proof -
  from assms(1) obtain st1 where
    f: "for_loop channels format_plots st = Inr st1"
    and a: "for_loop channels (analyze_plots Search st1) [] = Inr rep"
    and s: "for_loop channels (add_to_summary run) st1 = Inr st'"
    by (auto simp add: endRun_def split: sum.splits)
  have "st1 = st" using f by (rule format_loop_same)
  then show ?thesis
    using analyze_loop_channels [OF a assms(2)] summary_loop_channels [OF s assms(2)] by simp
qed

lemma map_filter_source:
  "y \<in> set (List.map_filter f xs) \<Longrightarrow> \<exists>x\<in>set xs. f x = Some y"
  by (induction xs) (auto split: option.splits)

lemma endJob_channels:
  assumes "100 \<le> c"
  shows "c \<notin> fst ` set (endJob st)"
proof
  assume "c \<in> fst ` set (endJob st)"
  then obtain h where "(c, h) \<in> set (endJob st)" by auto
  then obtain i where i: "i \<in> set channels"
    and "(case PulseAmpVsRun st i of None \<Rightarrow> None | Some g \<Rightarrow> Some (i, register_histo g)) = Some (c, h)"
    unfolding endJob_def by (blast dest: map_filter_source)
  then have "i = c" by (auto split: option.splits)
  with channels_range [OF i] assms show False by simp
qed

lemma fills_channel:
  "PulseAmplitudePerChannel (fills st d) (uint (OpChannel d)) \<noteq> None
   \<and> IntegratedChargePerChannel (fills st d) (uint (OpChannel d)) \<noteq> None
   \<and> PulseAmplitudeVsIntegratedChargePerChannel (fills st d) (uint (OpChannel d)) \<noteq> None"
  by (simp add: fills_def Let_def)

lemma bookkeeping_maps [simp]:
  "PulseAmplitudePerChannel (bookkeeping st d) = PulseAmplitudePerChannel st"
  "IntegratedChargePerChannel (bookkeeping st d) = IntegratedChargePerChannel st"
  "PulseAmplitudeVsIntegratedChargePerChannel (bookkeeping st d)
     = PulseAmplitudeVsIntegratedChargePerChannel st"
  by (simp_all add: bookkeeping_def)

lemma pulse7_quantities:
  "PulseAmplitude (Fin 500) (Fin 1000) = Fin 99"
  "IntegratedCharge (Fin 3000) (Fin 500) = Fin 2500"
  by (simp_all add: PulseAmplitude_def IntegratedCharge_def m1_window_def i1_window_def
      i2_window_def fl_simps)

lemma analyze_far: "analyze 12 (Fin 150) event_far beginJob = Some (Inr st_far)"
  using pulse7_ok
  by (simp add: analyze_def event_far_def walk.simps frag_far_def process_trigger_def Let_def
      st_far_def pulse300_def nADC_def)

lemma st_far_maps:
  "PulseAmplitudePerChannel st_far = [7 \<mapsto> one_pulse (Fin 99), 300 \<mapsto> one_pulse (Fin 99)]"
  "IntegratedChargePerChannel st_far
     = [7 \<mapsto> Fill1 (new_TH1D 300 (Fin 0) (Fin 30000)) (Fin 2500),
        300 \<mapsto> Fill1 (new_TH1D 300 (Fin 0) (Fin 30000)) (Fin 2500)]"
  "PulseAmplitudeVsIntegratedChargePerChannel st_far 7 \<noteq> None"
  "averageWaveforms st_far 7 \<noteq> None"
  "PulseAmpVsRun st_far = Map.empty"
  by (simp_all add: st_far_def fills_def bookkeeping_def Let_def fill_waveform_def beginJob_def
      pulse300_def pulse7_def wave7_def one_pulse_def pulse7_quantities)

lemma extend_far: "extend 1 (one_pulse (Fin 99)) None = Inr summary_far"
  by (simp add: extend_def summary_far_def fl_simps)

lemma endRun_far:
  "endRun four_peaks 1 st_far
     = Inr (st_far\<lparr>PulseAmpVsRun := [7 \<mapsto> summary_far]\<rparr>,
            [(7, ADCperPE [40, 0, 60, 20], INTperPE [40, 0, 60, 20])])"
  by (simp add: endRun_def channels_def upt_conv_Cons format_plots_def analyze_plots_def add_to_summary_def
      st_far_maps four_peaks_def extend_far del: upt_Suc)

lemma adc4: "ADCperPE [40, 0, 60, 20] = Some 20" "INTperPE [40, 0, 60, 20] = None"
  by (simp_all add: ADCperPE_def INTperPE_def peak_spacing_eq kept_average_def)

section \<open>Roundings of the examples\<close>

text \<open>
  The quotients \<open>2007 / 500\<close>, \<open>8050 / 500\<close>, \<open>21 / 10\<close> and \<open>1 / 150\<close> are not doubles; they
  and the results computed from them are rounded as follows.
\<close>

lemma round_2007: "fdiv (Fin 2007) (Fin 500) = Fin (4519362226066293 / 2 ^ 50)"
proof -
  have "rnd (2007 / 500) = of_int 4519362226066293 * 2 powi (2 - 52)"
    by (rule rnd_eqI) (simp_all add: power_int_minus_divide)
  then show ?thesis
    by (simp add: fl_def power_int_minus_divide)
qed

lemma round_2007_500:
  "fmul (Fin (4519362226066293 / 2 ^ 50)) (Fin 500) = Fin (8826879347785729 / 2 ^ 42)"
proof -
  have "rnd (4519362226066293 / 2 ^ 50 * 500) = of_int 8826879347785729 * 2 powi (10 - 52)"
    by (rule rnd_eqI) (simp_all add: power_int_minus_divide)
  then show ?thesis
    by (simp add: fl_def power_int_minus_divide)
qed

lemma round_2107:
  "fsub (Fin 2107) (Fin (8826879347785729 / 2 ^ 42)) = Fin (7036874417766384 / 2 ^ 46)"
proof -
  have "rnd (2107 + - (8826879347785729 / 2 ^ 42)) = of_int 7036874417766384 * 2 powi (6 - 52)"
    by (rule rnd_eqI) (simp_all add: power_int_minus_divide)
  then show ?thesis
    by (simp add: fsub_def fl_def power_int_minus_divide)
qed

lemma round_8050: "fdiv (Fin (- 8050)) (Fin 500) = Fin (- 4531747125041562 / 2 ^ 48)"
proof -
  have "rnd (- 8050 / 500) = of_int (- 4531747125041562) * 2 powi (4 - 52)"
    by (rule rnd_eqI) (simp_all add: power_int_minus_divide)
  then show ?thesis
    by (simp add: fl_def power_int_minus_divide)
qed

lemma round_21: "fdiv (Fin 21) (Fin 10) = Fin (4728779608739021 / 2 ^ 51)"
proof -
  have "rnd (21 / 10) = of_int 4728779608739021 * 2 powi (1 - 52)"
    by (rule rnd_eqI) (simp_all add: power_int_minus_divide)
  then show ?thesis
    by (simp add: fl_def power_int_minus_divide)
qed

lemma round_14:
  "fadd (Fin (- 4531747125041562 / 2 ^ 48)) (Fin (4728779608739021 / 2 ^ 51))
     = Fin (- 7881299347898369 / 2 ^ 49)"
proof -
  have "rnd (- 4531747125041562 / 2 ^ 48 + 4728779608739021 / 2 ^ 51)
          = of_int (- 7881299347898369) * 2 powi (3 - 52)"
    by (rule rnd_eqI) (simp_all add: power_int_minus_divide)
  then show ?thesis
    by (simp add: fl_def power_int_minus_divide)
qed

lemma round_150: "fdiv (Fin 1) (Fin 150) = Fin (7686143364045647 / 2 ^ 60)"
proof -
  have "rnd (1 / 150) = of_int 7686143364045647 * 2 powi (- 8 - 52)"
    by (rule rnd_eqI) (simp_all add: power_int_minus_divide)
  then show ?thesis
    by (simp add: fl_def power_int_minus_divide)
qed

lemma amplitude_formula:
  "PulseAmplitude B P = fadd (fdiv (fneg B) (Fin 500)) (fdiv P (Fin 10))"
  by (simp add: PulseAmplitude_def m1_window_def i2_window_def double_of_int_numeral fmul_one)

lemma charge_formula:
  "IntegratedCharge I B = fsub I (fmul (fdiv B (Fin 500)) (Fin 500))"
  by (simp add: IntegratedCharge_def i1_window_def i2_window_def double_of_int_numeral fmul_one)

lemma round_tick:
  "fdiv (Fin 9) (Fin 150) = Fin (8646911284551352 / 2 ^ 57)"
  "fdiv (Fin 11) (Fin 150) = Fin (5284223562781382 / 2 ^ 56)"
  "fmul (Fin 11) (Fin (8646911284551352 / 2 ^ 57)) = Fin (5944751508129054 / 2 ^ 53)"
  "fdiv (Fin (5944751508129054 / 2 ^ 53)) (Fin (5284223562781382 / 2 ^ 56))
     = Fin (5066549580791807 / 2 ^ 49)"
proof -
  have "rnd (9 / 150) = of_int 8646911284551352 * 2 powi (- 5 - 52)"
    by (rule rnd_eqI) (simp_all add: power_int_minus_divide)
  then show "fdiv (Fin 9) (Fin 150) = Fin (8646911284551352 / 2 ^ 57)"
    by (simp add: fl_def power_int_minus_divide)
  have "rnd (11 / 150) = of_int 5284223562781382 * 2 powi (- 4 - 52)"
    by (rule rnd_eqI) (simp_all add: power_int_minus_divide)
  then show "fdiv (Fin 11) (Fin 150) = Fin (5284223562781382 / 2 ^ 56)"
    by (simp add: fl_def power_int_minus_divide)
  have "rnd (11 * (8646911284551352 / 2 ^ 57))
          = of_int (if even (5944751508129054 :: int) then 5944751508129054 else 5944751508129054 + 1)
              * 2 powi (- 1 - 52)"
    by (rule rnd_tieI) (simp_all add: power_int_minus_divide)
  then show "fmul (Fin 11) (Fin (8646911284551352 / 2 ^ 57)) = Fin (5944751508129054 / 2 ^ 53)"
    by (simp add: fl_def power_int_minus_divide)
  have "rnd (5944751508129054 / 2 ^ 53 / (5284223562781382 / 2 ^ 56))
          = of_int 5066549580791807 * 2 powi (3 - 52)"
    by (rule rnd_eqI) (simp_all add: power_int_minus_divide)
  then show "fdiv (Fin (5944751508129054 / 2 ^ 53)) (Fin (5284223562781382 / 2 ^ 56))
     = Fin (5066549580791807 / 2 ^ 49)"
    by (simp add: fl_def power_int_minus_divide)
qed

text \<open>
  In a waveform of 11 samples at 150 MHz the quotient of \<open>FindBin\<close> for tick 9 is rounded to
  a double below 9: the sample of tick 9 is filled into time bin 9, the bin of tick 8.
\<close>

lemma tick_9_of_11:
  "FindBin \<lparr>fNbins = 11, fXmin = Fin 0, fXmax = fdiv (double_of_int 11) (Fin 150)\<rparr>
     (fdiv (double_of_int 9) (Fin 150)) = 9"
proof -
  have v: "fl (8646911284551352 / 2 ^ 57) = Fin (8646911284551352 / 2 ^ 57)"
    "fl (5284223562781382 / 2 ^ 56) = Fin (5284223562781382 / 2 ^ 56)"
    using fl_dyadic [of 8646911284551352 57] fl_dyadic [of 5284223562781382 56] by simp_all
  have s: "fsub (Fin (8646911284551352 / 2 ^ 57)) (Fin 0) = Fin (8646911284551352 / 2 ^ 57)"
    "fsub (Fin (5284223562781382 / 2 ^ 56)) (Fin 0) = Fin (5284223562781382 / 2 ^ 56)"
    using v by (simp_all add: fsub_def)
  have d: "double_of_int 11 = Fin 11" "double_of_int 9 = Fin 9" "double_of_int (int 11) = Fin 11"
    by (simp_all add: double_of_int_numeral)
  have "\<lfloor>5066549580791807 / (2::real) ^ 49\<rfloor> = 8"
    by (rule floor_unique) simp_all
  then have b: "bin_of (Fin (5066549580791807 / 2 ^ 49)) = 8"
    by (simp add: bin_of_def)
  show ?thesis
    unfolding FindBin_def axis.simps d round_tick s b by simp
qed

section \<open>Properties of the trigger loop\<close>

text \<open>
  Claim C1. A record whose header fields cannot be extracted is skipped, and the data
  pointer is advanced past the whole record before the walk continues. The code leaves
  the loop body at \<open>continue\<close>, before \<open>dataPointer += nADC/2\<close>: in \<open>frag_failed\<close> the
  record at offset 0 has 14 words, the next header is loaded at offset 12, inside the
  payload, and the record at offset 14 is never processed (the state is unchanged).
\<close>

theorem failed_record_payload_not_skipped:
  "walk 12 frag_failed beginJob 0 0 [] = Some (beginJob, 24, [0, 12])"
  by (simp add: walk.simps frag_failed_def process_trigger_def Let_def)

text \<open>
  Claim C4. The amplitude is \<open>-B/W2 + P/W1\<close> and the charge \<open>I - (B/W2)*W1i\<close> with
  \<open>W1 = 10\<close>, \<open>W2 = 500\<close>, \<open>W1i = 500\<close>, in double arithmetic with the operations in this
  order, each of them rounded (the two products with \<open>1.0\<close> change nothing);
  \<open>B = 500\<close>, \<open>P = 1000\<close> gives the amplitude 99. The division is not the integer
  division: \<open>B = 250\<close> gives 99.5. The order shows in the results: \<open>B = 8050\<close>, \<open>P = 21\<close>
  gives the amplitude \<open>-7881299347898369 / 2 ^ 49\<close>, the double next below \<open>-14\<close>
  (-14.000000000000002), and \<open>I = 2107\<close>, \<open>B = 2007\<close> gives the charge
  \<open>7036874417766384 / 2 ^ 46\<close> (99.99999999999977), not \<open>I - B = 100\<close>, because
  \<open>2007 / 500\<close> is rounded before it is multiplied by 500.
\<close>

theorem derived_quantities:
  "PulseAmplitude B P = fadd (fdiv (fneg B) (Fin 500)) (fdiv P (Fin 10))
   \<and> IntegratedCharge I B = fsub I (fmul (fdiv B (Fin 500)) (Fin 500))
   \<and> PulseAmplitude (Fin 500) (Fin 1000) = Fin 99
   \<and> PulseAmplitude (Fin 250) (Fin 1000) = Fin (199 / 2)
   \<and> PulseAmplitude (Fin 8050) (Fin 21) = Fin (- 7881299347898369 / 2 ^ 49)
   \<and> IntegratedCharge (Fin 2107) (Fin 2007) = Fin (7036874417766384 / 2 ^ 46)
   \<and> fsub (Fin 2107) (Fin 2007) = Fin 100"
proof -
  have h: "fl (- (1 / 2)) = Fin (- (1 / 2))"
    by (rule fl_half_Ints) simp_all
  have "PulseAmplitude (Fin 250) (Fin 1000) = Fin (199 / 2)"
    by (simp add: amplitude_formula h fl_simps)
  moreover have "PulseAmplitude (Fin 8050) (Fin 21) = Fin (- 7881299347898369 / 2 ^ 49)"
    unfolding amplitude_formula fneg.simps round_8050 round_21 round_14 ..
  moreover have "IntegratedCharge (Fin 2107) (Fin 2007) = Fin (7036874417766384 / 2 ^ 46)"
    unfolding charge_formula round_2007 round_2007_500 round_2107 ..
  moreover have "fsub (Fin 2107) (Fin 2007) = Fin 100"
    by (simp add: fl_simps)
  ultimately show ?thesis
    using amplitude_formula [of B P] charge_formula [of I B] pulse7_quantities(1) by simp
qed

text \<open>
  Claim C5, as stated: with trigger count 0 the walker stops exactly when the data pointer
  reaches the data end and never reads past it. In \<open>frag_short\<close> the data region has one
  word: the header loaded at offset 0 covers the words 0 to 11, and the walk ends with the
  pointer at 12.
\<close>

theorem walk_overruns_data_end:
  "walk 12 frag_short beginJob 0 0 [] = Some (beginJob, 12, [0]) \<and> dataEnd frag_short = 1"
  by (simp add: walk.simps frag_short_def process_trigger_def Let_def)

text \<open>
  Claim C5, amended: with trigger count 0 (and a header of at least one word) the walk
  ends, with the data pointer at or past the data end, and every header it loaded starts
  before the data end. When the data region is tiled by records, the walk ends with the
  pointer at the data end and no header it loaded extends past the data end.
\<close>

theorem walk_until_data_end:
  assumes "0 < hw" and "nTriggers frag = 0"
  shows "\<exists>st' p' loads. walk hw frag st 0 0 [] = Some (st', p', loads)
           \<and> dataEnd frag \<le> p' \<and> (\<forall>q\<in>set loads. q < dataEnd frag)
           \<and> (tiled hw frag 0 \<longrightarrow> p' = dataEnd frag \<and> (\<forall>q\<in>set loads. q + hw \<le> dataEnd frag))"
proof -
  from walk_uncounted [OF assms, of st 0 0 "[]"]
  obtain st' p' loads where w: "walk hw frag st 0 0 [] = Some (st', p', loads)"
    and e: "dataEnd frag \<le> p'" and b: "\<forall>q\<in>set loads. q < dataEnd frag"
    by auto
  have "p' = dataEnd frag \<and> (\<forall>q\<in>set loads. q + hw \<le> dataEnd frag)" if "tiled hw frag 0"
    using walk_tiled [OF assms(2) that, of st 0 "[]"] w by auto
  with w e b show ?thesis by blast
qed

theorem walk_until_data_end_witness:
  "0 < (12::nat) \<and> nTriggers (frag_early 0) = 0
   \<and> (\<exists>st'. walk 12 (frag_early 0) beginJob 0 0 []
               = Some (st', 108, [0, 12, 24, 36, 48, 60, 72, 84, 96]))
   \<and> dataEnd (frag_early 0) \<le> 108
   \<and> nTriggers frag_far = 0 \<and> tiled 12 frag_far 0
   \<and> (\<exists>st'. walk 12 frag_far beginJob 0 0 [] = Some (st', 24, [0, 12]))
   \<and> dataEnd frag_far = 24"
  using walk_until_data_end [of 12 "frag_early 0" beginJob] walk_until_data_end [of 12 frag_far beginJob]
    early7_problem pulse7_ok
  by (simp add: walk.simps tiled.simps frag_early_def frag_far_def process_trigger_def Let_def
      pulse300_def nADC_def)

text \<open>
  Claim C6. With a trigger count \<open>N > 0\<close> the walk ends after at most \<open>N\<close> passes through
  the loop body, and a walk that ends before the data end has made exactly \<open>N\<close>.
\<close>

theorem walk_stops_at_trigger_count:
  assumes "nTriggers frag \<noteq> 0"
  shows "\<exists>st' p' loads. walk hw frag st 0 0 [] = Some (st', p', loads)
           \<and> length loads \<le> unat (nTriggers frag)
           \<and> (p' < dataEnd frag \<longrightarrow> length loads = unat (nTriggers frag))"
  using walk_counted [OF assms, of hw st 0 0 "[]"] by simp

theorem walk_stops_at_trigger_count_witness:
  "nTriggers (frag_early 2) \<noteq> 0
   \<and> (\<exists>st'. walk 12 (frag_early 2) beginJob 0 0 [] = Some (st', 24, [0, 12]))
   \<and> 24 < dataEnd (frag_early 2) \<and> length [0, 12 :: nat] = unat (nTriggers (frag_early 2))"
  using walk_stops_at_trigger_count [of "frag_early 2" 12 beginJob] early7_problem
  by (simp add: walk.simps frag_early_def process_trigger_def Let_def)

text \<open>
  Claim C7, as stated: \<open>nADC = 2 * (length - header)\<close> is at least 0, and a record whose
  declared length is negative or absurd is skipped. In \<open>frag_corrupt\<close> the declared
  length is 0 and the header has 12 words, so \<open>2 * (length - header)\<close> is negative; the
  code computes \<open>nADC = 2 ^ 32 - 24\<close>, counts the record for channel 7 and advances the
  pointer by \<open>2 ^ 31\<close> words.
\<close>

theorem corrupt_length_not_skipped:
  "2 * (length_words (header_at frag_corrupt 0) - 12) < 0
   \<and> unat (nADC 12 (length_words (header_at frag_corrupt 0))) = 4294967272
   \<and> triggerCount (fst (process_trigger 12 frag_corrupt beginJob 0)) 7 = Some 1
   \<and> snd (process_trigger 12 frag_corrupt beginJob 0) = 2147483648"
  using pulse7_ok
  by (simp add: frag_corrupt_def process_trigger_def Let_def unat_nADC unat_nADC_half
      bookkeeping_def fills_def beginJob_def pulse7_def)

text \<open>
  Claim C7, amended: \<open>nADC\<close> is the unsigned 32-bit value \<open>2 * (length - header) mod 2 ^ 32\<close>;
  it is \<open>2 * (length - header)\<close> when \<open>header \<le> length < header + 2 ^ 31\<close>. The declared
  length is not checked: a record that can be reformatted and has a timestamp above the
  threshold is filled and counted whatever its length, and the pointer is advanced by
  \<open>header + ((length - header) mod 2 ^ 31)\<close> words.
\<close>

theorem nADC_wraps_unchecked:
  "unat (nADC hw len) = nat ((2 * (len - int hw)) mod 2 ^ 32)
   \<and> (int hw \<le> len \<and> len < int hw + 2 ^ 31 \<longrightarrow> int (unat (nADC hw len)) = 2 * (len - int hw))
   \<and> (length_words (header_at frag p) = len \<and> reform (header_at frag p) = Some d
        \<and> \<not> problem_timestamp (FirstSample d)
      \<longrightarrow> process_trigger hw frag st p
            = (bookkeeping (fills st d) d, p + hw + nat ((len - int hw) mod 2 ^ 31)))"
  by (simp add: unat_nADC unat_nADC_half process_trigger_def Let_def)

theorem nADC_wraps_unchecked_witness:
  "int 12 \<le> 14 \<and> (14::int) < int 12 + 2 ^ 31 \<and> unat (nADC 12 14) = 4
   \<and> length_words (header_at frag_failed 14) = 12
   \<and> reform (header_at frag_failed 14) = Some pulse7
   \<and> \<not> problem_timestamp (FirstSample pulse7)
   \<and> process_trigger 12 frag_failed beginJob 14 = (bookkeeping (fills beginJob pulse7) pulse7, 26)"
  using nADC_wraps_unchecked [of 12 14] nADC_wraps_unchecked [of 12 12 frag_failed 14 pulse7 beginJob]
    pulse7_ok
  by (simp add: frag_failed_def)

text \<open>
  Claim C8. A record with a timestamp below the threshold has its amplitude and charge
  fills made, is left out of \<open>firstTime\<close>, \<open>lastTime\<close> and \<open>triggerCount\<close>, and the walk over
  the remaining records continues. In \<open>frag_early_first\<close> the record at offset 0 has the
  timestamp 5 and 14 words. Its four fills are made (one entry each, in the bins of the
  amplitude 99 and of the charge 2500) and the bookkeeping is left as it was; but the body
  is left at \<open>continue\<close>, before \<open>dataPointer += nADC/2\<close>, so the next header is loaded at
  offset 12, inside the payload, and the valid record at offset 14 is never processed: the
  walk over the remaining records is out of step.
\<close>

theorem early_record_payload_not_skipped:
  "walk 12 frag_early_first beginJob 0 0 [] = Some (fills beginJob early7, 24, [0, 12])
   \<and> problem_timestamp (FirstSample early7)
   \<and> h1_bins (fPulseAmplitude (fills beginJob early7)) 75 = Fin 1
   \<and> map_option (\<lambda>h. h1_bins h 60) (PulseAmplitudePerChannel (fills beginJob early7) 7)
        = Some (Fin 1)
   \<and> map_option (\<lambda>h. h1_bins h 26) (IntegratedChargePerChannel (fills beginJob early7) 7)
        = Some (Fin 1)
   \<and> map_option (\<lambda>h. h2_cells h (26, 60))
        (PulseAmplitudeVsIntegratedChargePerChannel (fills beginJob early7) 7) = Some (Fin 1)
   \<and> firstTime (fills beginJob early7) = firstTime beginJob
   \<and> lastTime (fills beginJob early7) = lastTime beginJob
   \<and> triggerCount (fills beginJob early7) = Map.empty
   \<and> reform (header_at frag_early_first 14) = Some pulse7
   \<and> \<not> problem_timestamp (FirstSample pulse7)"
proof -
  have "walk 12 frag_early_first beginJob 0 0 [] = Some (fills beginJob early7, 24, [0, 12])"
    using early7_problem
    by (simp add: walk.simps frag_early_first_def process_trigger_def Let_def)
  moreover have "h1_bins (fPulseAmplitude (fills beginJob early7)) 75 = Fin 1"
    "map_option (\<lambda>h. h1_bins h 60) (PulseAmplitudePerChannel (fills beginJob early7) 7)
        = Some (Fin 1)"
    "map_option (\<lambda>h. h1_bins h 26) (IntegratedChargePerChannel (fills beginJob early7) 7)
        = Some (Fin 1)"
    "map_option (\<lambda>h. h2_cells h (26, 60))
        (PulseAmplitudeVsIntegratedChargePerChannel (fills beginJob early7) 7) = Some (Fin 1)"
    by (simp_all add: fills_def Let_def early7_def pulse7_def beginJob_def pulse7_quantities
        Fill1_def Fill2_def Fill2w_def new_TH1D_def new_TH2D_def FindBin_def fl_simps bin_of_def)
  moreover have "firstTime (fills beginJob early7) = firstTime beginJob"
    "lastTime (fills beginJob early7) = lastTime beginJob"
    "triggerCount (fills beginJob early7) = Map.empty"
    by (simp_all add: fills_def Let_def beginJob_def)
  moreover have "reform (header_at frag_early_first 14) = Some pulse7"
    by (simp add: frag_early_first_def)
  ultimately show ?thesis
    using early7_problem pulse7_ok by simp
qed

section \<open>Properties of the run summary\<close>



section \<open>Properties of the run boundaries\<close>

text \<open>
  Claim C2. At the start of a run all four kinds of per-channel histograms are cleared.
  \<open>beginRun\<close> clears the amplitude, charge and amplitude-vs-charge maps;
  \<open>averageWaveforms\<close> is not cleared: the waveform histogram of channel 7 filled by
  \<open>event_wave\<close> holds its entry after \<open>beginRun\<close>.
\<close>

theorem beginRun_keeps_averageWaveforms:
  "analyze 12 (Fin 150) event_wave beginJob = Some (Inr (fill_waveform (Fin 150) beginJob wave7))
   \<and> map_option (\<lambda>h. h2_cells h (1, 151))
        (averageWaveforms (fill_waveform (Fin 150) beginJob wave7) 7) = Some (Fin 1)
   \<and> map_option (\<lambda>h. h2_cells h (1, 151))
        (averageWaveforms (beginRun (fill_waveform (Fin 150) beginJob wave7)) 7) = Some (Fin 1)
   \<and> PulseAmplitudePerChannel (beginRun st) = Map.empty
   \<and> IntegratedChargePerChannel (beginRun st) = Map.empty
   \<and> PulseAmplitudeVsIntegratedChargePerChannel (beginRun st) = Map.empty
   \<and> averageWaveforms (beginRun st) = averageWaveforms st"
proof -
  have r: "fl (1 / 150) = Fin (7686143364045647 / 2 ^ 60)"
    using round_150 by simp
  have v: "fl (7686143364045647 / 2 ^ 60) = Fin (7686143364045647 / 2 ^ 60)"
    using fl_dyadic [of 7686143364045647 60] by simp
  have "map_option (\<lambda>h. h2_cells h (1, 151))
        (averageWaveforms (fill_waveform (Fin 150) beginJob wave7) 7) = Some (Fin 1)"
    using r v
    by (simp add: fill_waveform_def wave7_def beginJob_def Let_def Fill2_def Fill2w_def
        new_TH2D_def FindBin_def fl_simps bin_of_def)
  then show ?thesis
    by (simp add: analyze_def event_wave_def beginRun_def)
qed




text \<open>
  Claim C10. The loops of \<open>endRun\<close> and \<open>endJob\<close> run over the channels 0 to 99. A record
  on a channel \<open>c \<ge> 100\<close> gets its per-channel histograms during the event analysis, but
  \<open>endRun\<close> neither reports a calibration for \<open>c\<close> nor changes the entry of \<open>c\<close> in
  \<open>PulseAmpVsRun\<close>, and \<open>endJob\<close> registers no histogram for \<open>c\<close>.
\<close>

theorem channels_above_99:
  assumes "100 \<le> c"
  shows "(reform (header_at frag p) = Some d \<and> uint (OpChannel d) = c
          \<longrightarrow> PulseAmplitudePerChannel (fst (process_trigger hw frag st p)) c \<noteq> None
            \<and> IntegratedChargePerChannel (fst (process_trigger hw frag st p)) c \<noteq> None
            \<and> PulseAmplitudeVsIntegratedChargePerChannel (fst (process_trigger hw frag st p)) c \<noteq> None)
    \<and> (endRun Search run st = Inr (st', rep)
          \<longrightarrow> PulseAmpVsRun st' c = PulseAmpVsRun st c \<and> c \<notin> fst ` set rep)
    \<and> c \<notin> fst ` set (endJob st)"
  using endRun_channels [of Search run st st' rep c] endJob_channels [OF assms, of st]
    fills_channel [of st d] assms
  by (auto simp add: process_trigger_def Let_def)

theorem channels_above_99_witness:
  "(100::int) \<le> 300
   \<and> reform (header_at frag_far 12) = Some pulse300 \<and> uint (OpChannel pulse300) = 300
   \<and> analyze 12 (Fin 150) event_far beginJob = Some (Inr st_far)
   \<and> PulseAmplitudePerChannel st_far 300 = Some (one_pulse (Fin 99))
   \<and> PulseAmplitudePerChannel (fst (process_trigger 12 frag_far st_far 12)) 300 \<noteq> None
   \<and> endRun four_peaks 1 st_far
        = Inr (st_far\<lparr>PulseAmpVsRun := [7 \<mapsto> summary_far]\<rparr>, [(7, Some 20, None)])
   \<and> PulseAmpVsRun (st_far\<lparr>PulseAmpVsRun := [7 \<mapsto> summary_far]\<rparr>) 300 = None
   \<and> map fst (endJob (st_far\<lparr>PulseAmpVsRun := [7 \<mapsto> summary_far]\<rparr>)) = [7]
   \<and> 300 \<notin> fst ` set (endJob st_far)"
  using channels_above_99 [where c = 300 and frag = frag_far and p = 12 and d = pulse300
      and hw = 12 and st = st_far and Search = four_peaks and run = 1
      and st' = "st_far\<lparr>PulseAmpVsRun := [7 \<mapsto> summary_far]\<rparr>"
      and rep = "[(7, Some 20, None)]"]
    endRun_far analyze_far adc4
  by (simp add: frag_far_def pulse300_def st_far_maps endJob_def channels_def upt_conv_Cons del: upt_Suc)

end
